theory Spec2Isabelle
  imports Main
begin

section \<open>Text primitives of the Go standard library used by tc.go\<close>

text \<open>
  Go strings are byte sequences; they are modelled as \<open>string\<close> (a list of characters).
  \<open>fmt.Sprintf\<close> with the verbs \<open>%s\<close>, \<open>%d\<close> and \<open>%f\<close> is written out as
  concatenation of the rendered arguments.
\<close>

definition digitChar :: "nat \<Rightarrow> char" where
  "digitChar d = ''0123456789'' ! d"

text \<open>The verb \<open>%d\<close> on a non-negative integer: base 10, no leading zeros.\<close>

fun showNat :: "nat \<Rightarrow> string" where
  "showNat n = (if n < 10 then [digitChar n] else showNat (n div 10) @ [digitChar (n mod 10)])"

declare showNat.simps [simp del]

text \<open>The verb \<open>%d\<close> on any integer.\<close>

definition showInt :: "int \<Rightarrow> string" where
  "showInt i = (if i < 0 then ''-'' @ showNat (nat (- i)) else showNat (nat i))"

text \<open>
  The protobuf \<open>float\<close> fields. A finite value is a binary fraction: \<open>Finite m e\<close> is
  \<open>m * 2 ^ e\<close>. The three special values are kept, since \<open>x > 0\<close> and \<open>%f\<close> are
  defined on them. The zero \<open>Finite 0 e\<close> is the positive zero; the negative zero, which is
  not greater than 0 either, is never printed by the codec.
\<close>

datatype float32 = Finite int int | PosInf | NegInf | NaN

text \<open>The Go comparison \<open>x > 0\<close> on a float.\<close>

fun fpos :: "float32 \<Rightarrow> bool" where
  "fpos (Finite m e) = (0 < m)"
| "fpos PosInf = True"
| "fpos NegInf = False"
| "fpos NaN = False"

text \<open>The quotient \<open>n / d\<close> of a non-negative \<open>n\<close> by a positive \<open>d\<close>, rounded half to even.\<close>

definition roundHalfEven :: "int \<Rightarrow> int \<Rightarrow> int" where
  "roundHalfEven n d =
     (let q = n div d; r = n mod d
      in if 2 * r < d then q else if d < 2 * r then q + 1 else if even q then q else q + 1)"

definition pad6 :: "string \<Rightarrow> string" where
  "pad6 s = replicate (6 - length s) (CHR ''0'') @ s"

text \<open>The verb \<open>%f\<close>: six digits after the point, the exact value rounded half to even.\<close>

fun showFloat :: "float32 \<Rightarrow> string" where
  "showFloat (Finite m e) =
     (let n = \<bar>m\<bar> * 1000000;
          scaled = (if 0 \<le> e then n * 2 ^ nat e else roundHalfEven n (2 ^ nat (- e)))
      in (if m < 0 then ''-'' else []) @ showNat (nat (scaled div 1000000)) @ ''.''
         @ pad6 (showNat (nat (scaled mod 1000000))))"
| "showFloat PosInf = ''+Inf''"
| "showFloat NegInf = ''-Inf''"
| "showFloat NaN = ''NaN''"

text \<open>\<open>strings.Split(s, " ")\<close>: one piece more than there are spaces; \<open>Split "" = [""]\<close>.\<close>

fun Split :: "string \<Rightarrow> string list" where
  "Split [] = [[]]"
| "Split (c # s) =
     (if c = CHR '' '' then [] # Split s
      else (case Split s of [] \<Rightarrow> [[c]] | p # ps \<Rightarrow> (c # p) # ps))"

text \<open>\<open>strings.Join(elems, sep)\<close>.\<close>

fun Join :: "string list \<Rightarrow> string \<Rightarrow> string" where
  "Join [] sep = []"
| "Join [x] sep = x"
| "Join (x # y # ys) sep = x @ sep @ Join (y # ys) sep"

fun HasPrefix :: "string \<Rightarrow> string \<Rightarrow> bool" where
  "HasPrefix s [] = True"
| "HasPrefix [] (p # ps) = False"
| "HasPrefix (c # s) (p # ps) = (c = p \<and> HasPrefix s ps)"

text \<open>\<open>strings.Contains(s, substr)\<close>.\<close>

fun Contains :: "string \<Rightarrow> string \<Rightarrow> bool" where
  "Contains [] sub = (sub = [])"
| "Contains (c # s) sub = (HasPrefix (c # s) sub \<or> Contains s sub)"

section \<open>The protobuf messages read by tc.go\<close>

text \<open>
  The generated package \<open>serverpb\<close> is outside the verified sources. Every integer field
  is an unbounded \<open>int\<close>, which covers each Go integer type the field can have: the code
  only compares these fields with constants and prints them with \<open>%d\<close>. A pointer field is
  an \<open>option\<close>, \<open>None\<close> for nil. A nil slice and an empty slice are both \<open>[]\<close>. The
  rules of a request are messages that are present: the code reads their fields without a
  nil check. \<open>Tc_Other\<close> stands for every value of the rule type that is neither of the
  two the code names.
\<close>

record Netem =
  Time :: int
  Jitter :: int
  DelayCorr :: float32
  Limit :: int
  Loss :: float32
  LossCorr :: float32
  Gap :: int
  Duplicate :: float32
  DuplicateCorr :: float32
  Reorder :: float32
  ReorderCorr :: float32
  Corrupt :: float32
  CorruptCorr :: float32

record Tbf =
  Rate :: int
  Limit :: int
  Buffer :: int
  PeakRate :: int
  MinBurst :: int

datatype Tc_Type = Tc_BANDWIDTH | Tc_NETEM | Tc_Other

record Tc =
  Type :: Tc_Type
  Netem :: "Netem option"
  Tbf :: "Tbf option"
  Ipset :: string

record TcHandle =
  Major :: int
  Minor :: int

record Qdisc =
  Parent :: "TcHandle option"
  Handle :: "TcHandle option"
  Type :: string
  Args :: "string list"

datatype Chain_Direction = Chain_INPUT | Chain_OUTPUT

record Chain =
  Name :: string
  Direction :: Chain_Direction
  Ipsets :: "string list"
  Target :: string

section \<open>Errors\<close>

text \<open>
  \<open>Errorf\<close> is an error made by \<open>fmt.Errorf\<close> with its message; \<open>ExitError\<close> is an error
  of an external collaborator (the command runner, the container runtime, the packet
  filter), identified by its message; \<open>WithStack\<close> is \<open>errors.WithStack\<close> of the pingcap
  library, which attaches a stack trace to the error it is given.
\<close>

datatype error =
    Errorf string
  | ExitError string
  | OutputError string error
  | WithStack error

text \<open>
  Modelled from the spec: \<open>encodeOutputToError\<close> is defined outside the verified sources.
  The spec says of it that a non-zero exit from the runner is wrapped and returned; the
  wrapped value keeps the output and the runner's error.
\<close>

definition encodeOutputToError :: "string \<Rightarrow> error \<Rightarrow> error" where
  "encodeOutputToError output err = OutputError output err"

section \<open>The argument codec\<close>

definition convertNetemToArgs :: "Netem \<Rightarrow> string" where
  "convertNetemToArgs netem =
     (let args = '''';
          args =
            (if 0 < Time netem then
               (let args = ''delay '' @ showInt (Time netem);
                    args =
                      (if 0 < Jitter netem then
                         (let args = args @ '' '' @ showInt (Jitter netem)
                          in if fpos (DelayCorr netem)
                             then args @ '' '' @ showFloat (DelayCorr netem) else args)
                       else args)
                in if fpos (Reorder netem) then
                     (let args = args @ '' reorder '' @ showFloat (Reorder netem);
                          args =
                            (if fpos (ReorderCorr netem)
                             then args @ '' '' @ showFloat (ReorderCorr netem) else args)
                      in if 0 < Gap netem then args @ '' gap '' @ showInt (Gap netem) else args)
                   else args)
             else args);
          args =
            (if 0 < Netem.Limit netem then args @ '' limit '' @ showInt (Netem.Limit netem)
             else args);
          args =
            (if fpos (Loss netem) then
               (let args = args @ '' loss '' @ showFloat (Loss netem)
                in if fpos (LossCorr netem) then args @ '' '' @ showFloat (LossCorr netem)
                   else args)
             else args);
          args =
            (if fpos (Duplicate netem) then
               (let args = args @ '' duplicate '' @ showFloat (Duplicate netem)
                in if fpos (DuplicateCorr netem)
                   then args @ '' '' @ showFloat (DuplicateCorr netem) else args)
             else args);
          args =
            (if fpos (Corrupt netem) then
               (let args = args @ '' corrupt '' @ showFloat (Corrupt netem)
                in if fpos (CorruptCorr netem)
                   then args @ '' '' @ showFloat (CorruptCorr netem) else args)
             else args);
          trimedArgs = filter (\<lambda>part. 0 < length part) (Split args)
      in Join trimedArgs '' '')"

definition convertTbfToArgs :: "Tbf \<Rightarrow> string" where
  "convertTbfToArgs tbf =
     (let args = ''rate '' @ showInt (Rate tbf) @ '' burst '' @ showInt (Buffer tbf);
          args =
            (if 0 < Tbf.Limit tbf then args @ '' limit '' @ showInt (Tbf.Limit tbf) else args);
          args =
            (if 0 < PeakRate tbf
             then args @ '' peakrate '' @ showInt (PeakRate tbf) @ '' mtu '' @ showInt (MinBurst tbf)
             else args)
      in args)"

section \<open>Rendering one qdisc\<close>

definition showHandle :: "int \<Rightarrow> int \<Rightarrow> string" where
  "showHandle major minor = showInt major @ '':'' @ showInt minor"

definition generateQdiscArgs :: "string \<Rightarrow> Qdisc option \<Rightarrow> error + string list" where
  "generateQdiscArgs action qdisc =
     (case qdisc of
        None \<Rightarrow> Inl (Errorf ''qdisc is required'')
      | Some q \<Rightarrow>
          if Qdisc.Type q = '''' then Inl (Errorf ''qdisc.Type is required'')
          else
            (let args = [''qdisc'', action, ''dev'', ''eth0''];
                 args =
                   (case Parent q of
                      None \<Rightarrow> args @ [''root'']
                    | Some p \<Rightarrow>
                        if Major p = 1 \<and> Minor p = 0 then args @ [''root'']
                        else args @ [''parent'', showHandle (Major p) (Minor p)]);
                 args =
                   (case Handle q of
                      None \<Rightarrow> args @ [''handle'', showHandle 1 0]
                    | Some h \<Rightarrow> args @ [''handle'', showHandle (Major h) (Minor h)]);
                 args = args @ [Qdisc.Type q];
                 args = args @ Args q
             in Inr args))"

text \<open>The zero value of the Netem message: every field unset.\<close>

definition zeroNetem :: Netem where
  "zeroNetem = \<lparr>Time = 0, Jitter = 0, DelayCorr = Finite 0 0, Limit = 0, Loss = Finite 0 0,
     LossCorr = Finite 0 0, Gap = 0, Duplicate = Finite 0 0, DuplicateCorr = Finite 0 0,
     Reorder = Finite 0 0, ReorderCorr = Finite 0 0, Corrupt = Finite 0 0,
     CorruptCorr = Finite 0 0\<rparr>"

section \<open>The token lists of the argument codec, as the specification words them\<close>

text \<open>
  A word is a non-empty string without a space: what the traffic-control tool reads as
  one argument.
\<close>

text \<open>The characters that \<open>%d\<close> and \<open>%f\<close> can print.\<close>

definition numChars :: "char set" where
  "numChars = set ''0123456789-+.InfNa''"

definition word :: "string \<Rightarrow> bool" where
  "word w = (w \<noteq> [] \<and> CHR '' '' \<notin> set w)"

text \<open>The non-empty pieces of a string split at its spaces.\<close>

definition toks :: "string \<Rightarrow> string list" where
  "toks s = filter (\<lambda>part. 0 < length part) (Split s)"

text \<open>
  The Netem encoding of the specification: \<open>delay <d> [<jitter> [<delayCorr>]]\<close>, then,
  only under a positive delay, \<open>reorder <p> [<corr>] [gap <g>]\<close>, then \<open>limit <n>\<close>,
  \<open>loss <p> [<corr>]\<close>, \<open>duplicate <p> [<corr>]\<close>, \<open>corrupt <p> [<corr>]\<close>; a sub-field
  that is not positive is left out.
\<close>

definition netemTokens :: "Netem \<Rightarrow> string list" where
  "netemTokens n =
     (if 0 < Time n then
        [''delay'', showInt (Time n)]
        @ (if 0 < Jitter n then
             showInt (Jitter n) # (if fpos (DelayCorr n) then [showFloat (DelayCorr n)] else [])
           else [])
        @ (if fpos (Reorder n) then
             [''reorder'', showFloat (Reorder n)]
             @ (if fpos (ReorderCorr n) then [showFloat (ReorderCorr n)] else [])
             @ (if 0 < Gap n then [''gap'', showInt (Gap n)] else [])
           else [])
      else [])
     @ (if 0 < Netem.Limit n then [''limit'', showInt (Netem.Limit n)] else [])
     @ (if fpos (Loss n) then
          [''loss'', showFloat (Loss n)] @ (if fpos (LossCorr n) then [showFloat (LossCorr n)] else [])
        else [])
     @ (if fpos (Duplicate n) then
          [''duplicate'', showFloat (Duplicate n)]
          @ (if fpos (DuplicateCorr n) then [showFloat (DuplicateCorr n)] else [])
        else [])
     @ (if fpos (Corrupt n) then
          [''corrupt'', showFloat (Corrupt n)]
          @ (if fpos (CorruptCorr n) then [showFloat (CorruptCorr n)] else [])
        else [])"

text \<open>
  The Bandwidth encoding of the specification: \<open>rate <r> burst <b>\<close>, then \<open>limit <n>\<close>
  if set, then \<open>peakrate <p> mtu <m>\<close> if the peak rate is set.
\<close>

definition tbfTokens :: "Tbf \<Rightarrow> string list" where
  "tbfTokens t =
     [''rate'', showInt (Rate t), ''burst'', showInt (Buffer t)]
     @ (if 0 < Tbf.Limit t then [''limit'', showInt (Tbf.Limit t)] else [])
     @ (if 0 < PeakRate t then [''peakrate'', showInt (PeakRate t), ''mtu'', showInt (MinBurst t)]
        else [])"

section \<open>The collaborators of the rule compiler\<close>

text \<open>
  Every effect of the compiler is a call to a collaborator outside the verified sources:
  the namespace-scoped command runner (\<open>bpm\<close>'s process builder and \<open>CombinedOutput\<close>),
  the container runtime client, and the packet-filter client. A run is recorded as the
  list of the calls made, in order. \<open>Exec ns argv\<close> is one run of the \<open>tc\<close> program with
  arguments \<open>argv\<close> in the network namespace \<open>ns\<close>; \<open>SetIptablesChains ns chains\<close> is
  the one call of the packet filter.
\<close>

datatype event =
    Exec string "string list"
  | SetIptablesChains string "Chain list"

type_synonym trace = "event list"

text \<open>
  What the collaborators answer. The answer of the command runner and of the packet filter
  may depend on every call made before (the kernel state they act on), so both take the
  trace so far. \<open>CombinedOutput\<close> answers with the output and \<open>None\<close> for a nil error.
\<close>

record world =
  GetPidFromContainerID :: "string \<Rightarrow> error + nat"
  GetNsPath :: "nat \<Rightarrow> string"
  CombinedOutput :: "trace \<Rightarrow> string \<Rightarrow> string list \<Rightarrow> string \<times> error option"
  setIptablesChains :: "trace \<Rightarrow> string \<Rightarrow> Chain list \<Rightarrow> error option"

record tcClient =
  nsPath :: string

definition buildTcClient :: "string \<Rightarrow> tcClient" where
  "buildTcClient ns = \<lparr>nsPath = ns\<rparr>"

text \<open>Build and run one \<open>tc\<close> command: the answer, and the trace with the call added.\<close>

definition runTc :: "world \<Rightarrow> tcClient \<Rightarrow> string list \<Rightarrow> trace
    \<Rightarrow> (string \<times> error option) \<times> trace" where
  "runTc w c argv t = (CombinedOutput w t (nsPath c) argv, t @ [Exec (nsPath c) argv])"

section \<open>The tc client\<close>

definition ruleNotExist :: string where
  "ruleNotExist = ''Cannot delete qdisc with handle of zero.''"

definition ruleNotExistLowerVersion :: string where
  "ruleNotExistLowerVersion = ''RTNETLINK answers: No such file or directory''"

definition RULE_NOT_EXIST :: string where
  "RULE_NOT_EXIST = ''RTNETLINK answers: No such file or directory''"

definition flush :: "world \<Rightarrow> tcClient \<Rightarrow> trace \<Rightarrow> error option \<times> trace" where
  "flush w c t =
     (case runTc w c [''qdisc'', ''del'', ''dev'', ''eth0'', ''root''] t of
        ((output, err), t') \<Rightarrow>
          (case err of
             Some e \<Rightarrow> if \<not> Contains output RULE_NOT_EXIST then (Some e, t') else (None, t')
           | None \<Rightarrow> (None, t')))"

definition addNetem :: "world \<Rightarrow> tcClient \<Rightarrow> string \<Rightarrow> string \<Rightarrow> Netem \<Rightarrow> trace
    \<Rightarrow> error option \<times> trace" where
  "addNetem w c parent handle netem t =
     (let args = ''qdisc add dev eth0 '' @ parent @ '' '' @ handle @ '' netem ''
                 @ convertNetemToArgs netem
      in case runTc w c (Split args) t of
           ((output, err), t') \<Rightarrow>
             (case err of
                Some e \<Rightarrow> (Some (encodeOutputToError output e), t')
              | None \<Rightarrow> (None, t')))"

definition addTbf :: "world \<Rightarrow> tcClient \<Rightarrow> string \<Rightarrow> string \<Rightarrow> Tbf \<Rightarrow> trace
    \<Rightarrow> error option \<times> trace" where
  "addTbf w c parent handle tbf t =
     (let args = ''qdisc add dev eth0 '' @ parent @ '' '' @ handle @ '' tbf ''
                 @ convertTbfToArgs tbf
      in case runTc w c (Split args) t of
           ((output, err), t') \<Rightarrow>
             (case err of
                Some e \<Rightarrow> (Some (encodeOutputToError output e), t')
              | None \<Rightarrow> (None, t')))"

definition addTc :: "world \<Rightarrow> tcClient \<Rightarrow> string \<Rightarrow> string \<Rightarrow> Tc \<Rightarrow> trace
    \<Rightarrow> error option \<times> trace" where
  "addTc w c parentArg handleArg tc t =
     (if Tc.Type tc = Tc_BANDWIDTH then
        (case Tbf tc of
           None \<Rightarrow> (Some (Errorf ''tbf is nil while type is BANDWIDTH''), t)
         | Some tbf \<Rightarrow>
             (case addTbf w c parentArg handleArg tbf t of
                (Some err, t') \<Rightarrow> (Some err, t')
              | (None, t') \<Rightarrow> (None, t')))
      else if Tc.Type tc = Tc_NETEM then
        (case Netem tc of
           None \<Rightarrow> (Some (Errorf ''netem is nil while type is NETEM''), t)
         | Some netem \<Rightarrow>
             (case addNetem w c parentArg handleArg netem t of
                (Some err, t') \<Rightarrow> (Some err, t')
              | (None, t') \<Rightarrow> (None, t')))
      else (Some (Errorf ''unknown tc qdisc type''), t))"

text \<open>The loop \<open>for index := 1; index <= 3; index++\<close> of \<open>addPrio\<close>.\<close>

function addPrioSfq :: "world \<Rightarrow> tcClient \<Rightarrow> int \<Rightarrow> int \<Rightarrow> trace \<Rightarrow> error option \<times> trace" where
  "addPrioSfq w c parent index t =
     (if index \<le> 3 then
        (let args = ''qdisc add dev eth0 parent '' @ showInt (parent + 1) @ '':'' @ showInt index
                    @ '' handle '' @ showInt (parent + 1 + index) @ '': sfq''
         in case runTc w c (Split args) t of
              ((output, err), t') \<Rightarrow>
                (case err of
                   Some e \<Rightarrow> (Some (encodeOutputToError output e), t')
                 | None \<Rightarrow> addPrioSfq w c parent (index + 1) t'))
      else (None, t))"
  by pat_completeness auto
termination
  by (relation "measure (\<lambda>(w, c, parent, index, t). nat (4 - index))") auto

declare addPrioSfq.simps [simp del]

definition addPrio :: "world \<Rightarrow> tcClient \<Rightarrow> int \<Rightarrow> int \<Rightarrow> trace \<Rightarrow> error option \<times> trace" where
  "addPrio w c parent band t =
     (let parentArg = (if 0 < parent then ''parent '' @ showInt parent @ '':'' else ''root'');
          args = ''qdisc add dev eth0 '' @ parentArg @ '' handle '' @ showInt (parent + 1)
                 @ '': prio bands '' @ showInt band
                 @ '' priomap 1 2 2 2 1 2 0 0 1 1 1 1 1 1 1 1''
      in case runTc w c (Split args) t of
           ((output, err), t') \<Rightarrow>
             (case err of
                Some e \<Rightarrow> (Some (encodeOutputToError output e), t')
              | None \<Rightarrow> addPrioSfq w c parent 1 t'))"

section \<open>The rule compiler\<close>

record TcsRequest =
  ContainerId :: string
  Tcs :: "Tc list"

text \<open>
  The Go map \<open>filterTc\<close> from a destination set to its rules, as a list of pairs with
  distinct keys. The order of the pairs is not observed: the model reads the map through
  \<open>map_of\<close> and its length only. \<open>goLookup\<close> gives nil for a missing key, as indexing a Go
  map does.
\<close>

type_synonym filterMap = "(string \<times> Tc list) list"

definition goLookup :: "filterMap \<Rightarrow> string \<Rightarrow> Tc list" where
  "goLookup m k = (case map_of m k of None \<Rightarrow> [] | Some tcs \<Rightarrow> tcs)"

fun goStore :: "string \<Rightarrow> Tc list \<Rightarrow> filterMap \<Rightarrow> filterMap" where
  "goStore k v [] = [(k, v)]"
| "goStore k v (p # ps) = (if fst p = k then (k, v) # ps else p # goStore k v ps)"

text \<open>The loop that splits the rules of the request into \<open>globalTc\<close> and \<open>filterTc\<close>.\<close>

fun splitTcs :: "Tc list \<Rightarrow> Tc list \<Rightarrow> filterMap \<Rightarrow> Tc list \<times> filterMap" where
  "splitTcs [] globalTc filterTc = (globalTc, filterTc)"
| "splitTcs (tc # tcs) globalTc filterTc =
     (if Ipset tc = [] then splitTcs tcs (globalTc @ [tc]) filterTc
      else splitTcs tcs globalTc
             (goStore (Ipset tc) (goLookup filterTc (Ipset tc) @ [tc]) filterTc))"

text \<open>
  Go leaves the order of a \<open>range\<close> over a map unspecified; it visits every key once. The
  order the runtime takes is the parameter \<open>ord\<close> of the model: \<open>rangeOrder ord m\<close> says
  that \<open>ord\<close> is an order in which \<open>range m\<close> can run, \<open>rangeMap ord m\<close> is the sequence
  of pairs the loop then sees.
\<close>

definition rangeOrder :: "string list \<Rightarrow> filterMap \<Rightarrow> bool" where
  "rangeOrder ord m = (distinct ord \<and> set ord = set (map fst m))"

definition rangeMap :: "string list \<Rightarrow> filterMap \<Rightarrow> (string \<times> Tc list) list" where
  "rangeMap ord m = map (\<lambda>k. (k, goLookup m k)) ord"

text \<open>The loop \<open>for index, tc := range globalTc\<close>.\<close>

fun globalTcLoop :: "world \<Rightarrow> tcClient \<Rightarrow> int \<Rightarrow> Tc list \<Rightarrow> trace \<Rightarrow> error option \<times> trace" where
  "globalTcLoop w c index [] t = (None, t)"
| "globalTcLoop w c index (tc # tcs) t =
     (let parentArg = (if 0 < index then ''parent '' @ showInt index @ '':'' else ''root'');
          handleArg = ''handle '' @ showInt (index + 1) @ '':''
      in case addTc w c parentArg handleArg tc t of
           (Some err, t') \<Rightarrow> (Some (WithStack err), t')
         | (None, t') \<Rightarrow> globalTcLoop w c (index + 1) tcs t')"

text \<open>
  The loop \<open>for i, tc := range tcs\<close> over the rules of one destination set. It returns the
  error, the counter \<open>currentHandler\<close> and the trace.
\<close>

fun groupTcLoop :: "world \<Rightarrow> tcClient \<Rightarrow> int \<Rightarrow> int \<Rightarrow> int \<Rightarrow> Tc list \<Rightarrow> int \<Rightarrow> trace
    \<Rightarrow> error option \<times> int \<times> trace" where
  "groupTcLoop w c parent index i [] currentHandler t = (None, currentHandler, t)"
| "groupTcLoop w c parent index i (tc # tcs) currentHandler t =
     (let parentArg =
            (if 0 < i then ''parent '' @ showInt currentHandler @ '':''
             else ''parent '' @ showInt parent @ '':'' @ showInt (index + 4));
          currentHandler = currentHandler + 1;
          handleArg = ''handle '' @ showInt currentHandler @ '':''
      in case addTc w c parentArg handleArg tc t of
           (Some err, t') \<Rightarrow> (Some (WithStack err), currentHandler, t')
         | (None, t') \<Rightarrow> groupTcLoop w c parent index (i + 1) tcs currentHandler t')"

text \<open>
  The loop \<open>for ipset, tcs := range filterTc\<close>, over the pairs in the order the runtime
  takes. It returns the error, the chains collected and the trace.
\<close>

fun filterTcLoop :: "world \<Rightarrow> tcClient \<Rightarrow> int \<Rightarrow> int \<Rightarrow> (string \<times> Tc list) list \<Rightarrow> int
    \<Rightarrow> Chain list \<Rightarrow> trace \<Rightarrow> error option \<times> Chain list \<times> trace" where
  "filterTcLoop w c parent index [] currentHandler chainList t = (None, chainList, t)"
| "filterTcLoop w c parent index ((ipset, tcs) # groups) currentHandler chainList t =
     (case groupTcLoop w c parent index 0 tcs currentHandler t of
        (Some err, currentHandler', t') \<Rightarrow> (Some err, chainList, t')
      | (None, currentHandler', t') \<Rightarrow>
          filterTcLoop w c parent (index + 1) groups currentHandler'
            (chainList @ [\<lparr>Name = ''TC-TABLES-'' @ showInt index, Direction = Chain_OUTPUT,
                         Ipsets = [ipset],
                         Target = ''CLASSIFY --set-class '' @ showInt parent @ '':''
                                  @ showInt (index + 4)\<rparr>])
            t')"

definition SetContainerTcRules :: "world \<Rightarrow> string list \<Rightarrow> TcsRequest \<Rightarrow> error option \<times> trace" where
  "SetContainerTcRules w ord req =
     (case GetPidFromContainerID w (ContainerId req) of
        Inl err \<Rightarrow> (Some (WithStack err), [])
      | Inr pid \<Rightarrow>
          (let ns = GetNsPath w pid;
               c = buildTcClient ns
           in case flush w c [] of
                (Some err, t) \<Rightarrow> (Some (WithStack err), t)
              | (None, t) \<Rightarrow>
                  (case splitTcs (Tcs req) [] [] of
                     (globalTc, filterTc) \<Rightarrow>
                       (case globalTcLoop w c 0 globalTc t of
                          (Some err, t) \<Rightarrow> (Some err, t)
                        | (None, t) \<Rightarrow>
                            (let parent = int (length globalTc);
                                 band = 3 + int (length filterTc)
                             in case addPrio w c parent band t of
                                  (Some err, t) \<Rightarrow> (Some (WithStack err), t)
                                | (None, t) \<Rightarrow>
                                    (let parent = parent + 1;
                                         index = 0;
                                         currentHandler = parent + 3
                                     in case filterTcLoop w c parent index (rangeMap ord filterTc)
                                               currentHandler [] t of
                                          (Some err, chainList, t) \<Rightarrow> (Some err, t)
                                        | (None, chainList, t) \<Rightarrow>
                                            (case setIptablesChains w t ns chainList of
                                               Some err \<Rightarrow>
                                                 (Some (WithStack err),
                                                  t @ [SetIptablesChains ns chainList])
                                             | None \<Rightarrow>
                                                 (None, t @ [SetIptablesChains ns chainList]))))))))"

section \<open>The compiled plan, as the specification words it\<close>

text \<open>
  The specification describes the compiler as a builder of an ordered sequence of qdisc
  operations that are then applied one by one, stopping at the first failure. A step of
  that sequence is either a command to run, or a rule that is rejected before any command
  is built.
\<close>

datatype step = Run "string list" | Abort error

text \<open>Apply the steps in order in the namespace \<open>ns\<close>; stop at the first failure.\<close>

fun runSteps :: "world \<Rightarrow> string \<Rightarrow> step list \<Rightarrow> trace \<Rightarrow> error option \<times> trace" where
  "runSteps w ns [] t = (None, t)"
| "runSteps w ns (Abort err # steps) t = (Some err, t)"
| "runSteps w ns (Run argv # steps) t =
     (case CombinedOutput w t ns argv of
        (output, Some e) \<Rightarrow> (Some (encodeOutputToError output e), t @ [Exec ns argv])
      | (output, None) \<Rightarrow> runSteps w ns steps (t @ [Exec ns argv]))"

text \<open>The kind and the encoded arguments of a well-formed rule, as tokens.\<close>

definition tcKindArgs :: "Tc \<Rightarrow> string list" where
  "tcKindArgs tc =
     (if Tc.Type tc = Tc_BANDWIDTH then
        (case Tbf tc of None \<Rightarrow> [] | Some tbf \<Rightarrow> ''tbf'' # Split (convertTbfToArgs tbf))
      else if Tc.Type tc = Tc_NETEM then
        (case Netem tc of None \<Rightarrow> [] | Some netem \<Rightarrow> ''netem'' # Split (convertNetemToArgs netem))
      else [])"

text \<open>A rule that the qdisc operation builder accepts.\<close>

definition wellFormed :: "Tc \<Rightarrow> bool" where
  "wellFormed tc =
     ((Tc.Type tc = Tc_BANDWIDTH \<and> Tbf tc \<noteq> None) \<or> (Tc.Type tc = Tc_NETEM \<and> Netem tc \<noteq> None))"

text \<open>
  One ChainNode: the operation \<open>qdisc add dev eth0 <parent> handle <h>: <kind> <args>\<close>,
  or the rejection of a rule that is not well-formed.
\<close>

definition tcStep :: "string list \<Rightarrow> int \<Rightarrow> Tc \<Rightarrow> step" where
  "tcStep parentToks h tc =
     (if Tc.Type tc = Tc_BANDWIDTH \<and> Tbf tc = None
        then Abort (Errorf ''tbf is nil while type is BANDWIDTH'')
      else if Tc.Type tc = Tc_NETEM \<and> Netem tc = None
        then Abort (Errorf ''netem is nil while type is NETEM'')
      else if Tc.Type tc \<noteq> Tc_BANDWIDTH \<and> Tc.Type tc \<noteq> Tc_NETEM
        then Abort (Errorf ''unknown tc qdisc type'')
      else Run ([''qdisc'', ''add'', ''dev'', ''eth0''] @ parentToks
                @ [''handle'', showInt h @ '':''] @ tcKindArgs tc))"

text \<open>
  The global chain: node \<open>i\<close> (from 0) of the unfiltered rules has parent \<open>root\<close> if
  \<open>i = 0\<close> and \<open>i:\<close> otherwise, and handle \<open>i+1:\<close>.
\<close>

definition globalParent :: "nat \<Rightarrow> string list" where
  "globalParent i = (if i = 0 then [''root''] else [''parent'', showInt (int i) @ '':''])"

fun globalStepsFrom :: "nat \<Rightarrow> Tc list \<Rightarrow> step list" where
  "globalStepsFrom i [] = []"
| "globalStepsFrom i (tc # tcs) =
     tcStep (globalParent i) (int i + 1) tc # globalStepsFrom (Suc i) tcs"

definition globalSteps :: "Tc list \<Rightarrow> step list" where
  "globalSteps globalTc = globalStepsFrom 0 globalTc"

text \<open>
  The priority multiplexer below \<open>g\<close> global rules with \<open>3 + k\<close> bands, and its three
  default leaves.
\<close>

definition prioArgv :: "nat \<Rightarrow> nat \<Rightarrow> string list" where
  "prioArgv g k =
     [''qdisc'', ''add'', ''dev'', ''eth0''] @ globalParent g
     @ [''handle'', showInt (int g + 1) @ '':'', ''prio'', ''bands'', showInt (3 + int k),
        ''priomap'', ''1'', ''2'', ''2'', ''2'', ''1'', ''2'', ''0'', ''0'',
        ''1'', ''1'', ''1'', ''1'', ''1'', ''1'', ''1'', ''1'']"

definition sfqArgv :: "nat \<Rightarrow> nat \<Rightarrow> string list" where
  "sfqArgv g i =
     [''qdisc'', ''add'', ''dev'', ''eth0'', ''parent'',
      showInt (int g + 1) @ '':'' @ showInt (int i),
      ''handle'', showInt (int g + 1 + int i) @ '':'', ''sfq'']"

definition prioSteps :: "nat \<Rightarrow> nat \<Rightarrow> step list" where
  "prioSteps g k = [Run (prioArgv g k), Run (sfqArgv g 1), Run (sfqArgv g 2), Run (sfqArgv g 3)]"

text \<open>
  The filtered groups, attached one after the other. The group at position \<open>j\<close> hangs off
  band \<open>j+4\<close> of the multiplexer \<open>g+1\<close>: its first rule has that band as parent, every
  later rule of the group has the handle allocated just before it as parent. Handles come
  from a counter \<open>h\<close> that is incremented before each use.
\<close>

definition filterParent :: "nat \<Rightarrow> nat \<Rightarrow> nat \<Rightarrow> int \<Rightarrow> string list" where
  "filterParent g j i h =
     (if i = 0 then [''parent'', showInt (int g + 1) @ '':'' @ showInt (int j + 4)]
      else [''parent'', showInt h @ '':''])"

fun groupStepsFrom :: "nat \<Rightarrow> nat \<Rightarrow> nat \<Rightarrow> int \<Rightarrow> Tc list \<Rightarrow> step list" where
  "groupStepsFrom g j i h [] = []"
| "groupStepsFrom g j i h (tc # tcs) =
     tcStep (filterParent g j i h) (h + 1) tc # groupStepsFrom g j (Suc i) (h + 1) tcs"

fun filterStepsFrom :: "nat \<Rightarrow> nat \<Rightarrow> int \<Rightarrow> (string \<times> Tc list) list \<Rightarrow> step list" where
  "filterStepsFrom g j h [] = []"
| "filterStepsFrom g j h ((ipset, tcs) # groups) =
     groupStepsFrom g j 0 h tcs @ filterStepsFrom g (Suc j) (h + int (length tcs)) groups"

definition filterSteps :: "nat \<Rightarrow> (string \<times> Tc list) list \<Rightarrow> step list" where
  "filterSteps g groups = filterStepsFrom g 0 (int g + 4) groups"

text \<open>The number of filtered rules processed before the group at position \<open>j\<close>.\<close>

definition groupOffset :: "(string \<times> Tc list) list \<Rightarrow> nat \<Rightarrow> nat" where
  "groupOffset groups j = length (concat (map snd (take j groups)))"

text \<open>The classification-chain descriptor of the group at position \<open>j\<close>.\<close>

definition tcChain :: "nat \<Rightarrow> nat \<Rightarrow> string \<Rightarrow> Chain" where
  "tcChain g j ipset =
     \<lparr>Name = ''TC-TABLES-'' @ showInt (int j), Direction = Chain_OUTPUT, Ipsets = [ipset],
      Target = ''CLASSIFY --set-class '' @ showInt (int g + 1) @ '':'' @ showInt (int j + 4)\<rparr>"

fun tcChainsFrom :: "nat \<Rightarrow> nat \<Rightarrow> string list \<Rightarrow> Chain list" where
  "tcChainsFrom g j [] = []"
| "tcChainsFrom g j (ipset # ord) = tcChain g j ipset # tcChainsFrom g (Suc j) ord"

definition tcChains :: "nat \<Rightarrow> string list \<Rightarrow> Chain list" where
  "tcChains g ord = tcChainsFrom g 0 ord"

text \<open>
  The unfiltered rules of a request, and its destination sets in the order of their first
  occurrence.
\<close>

definition globalRules :: "Tc list \<Rightarrow> Tc list" where
  "globalRules tcs = filter (\<lambda>tc. Ipset tc = []) tcs"

fun firstSeen :: "string list \<Rightarrow> string list" where
  "firstSeen [] = []"
| "firstSeen (x # xs) = x # removeAll x (firstSeen xs)"

definition destinationSets :: "Tc list \<Rightarrow> string list" where
  "destinationSets tcs = firstSeen (filter (\<lambda>s. s \<noteq> []) (map Ipset tcs))"

text \<open>The rules of one destination set, in input order.\<close>

definition groupRules :: "Tc list \<Rightarrow> string \<Rightarrow> Tc list" where
  "groupRules tcs ipset = filter (\<lambda>tc. Ipset tc = ipset) tcs"

text \<open>
  The groups in the order \<open>ord\<close>, and the whole plan after the flush for the groups in
  the order they are processed.
\<close>

definition groupsIn :: "string list \<Rightarrow> Tc list \<Rightarrow> (string \<times> Tc list) list" where
  "groupsIn ord tcs = map (\<lambda>ipset. (ipset, groupRules tcs ipset)) ord"

definition planSteps :: "Tc list \<Rightarrow> (string \<times> Tc list) list \<Rightarrow> step list" where
  "planSteps tcs groups =
     globalSteps (globalRules tcs)
     @ prioSteps (length (globalRules tcs)) (length (destinationSets tcs))
     @ filterSteps (length (globalRules tcs)) groups"

definition flushArgv :: "string list" where
  "flushArgv = [''qdisc'', ''del'', ''dev'', ''eth0'', ''root'']"

text \<open>The result of a loop of the compiler: the error of a step wrapped by \<open>WithStack\<close>.\<close>

fun withStack :: "error option \<times> trace \<Rightarrow> error option \<times> trace" where
  "withStack (Some e, t) = (Some (WithStack e), t)"
| "withStack (None, t) = (None, t)"

text \<open>The handle of the filtered rule processed at position \<open>m\<close> (from 0), below \<open>g\<close> global rules.\<close>

definition filterHandle :: "nat \<Rightarrow> nat \<Rightarrow> int" where
  "filterHandle g m = int g + 5 + int m"

text \<open>
  The call at position \<open>p\<close> of the trace \<open>tr\<close> was answered without an error: the
  collaborator is asked with the calls made before it.
\<close>

definition answered :: "world \<Rightarrow> trace \<Rightarrow> nat \<Rightarrow> bool" where
  "answered w tr p =
     (case tr ! p of
        Exec ns argv \<Rightarrow> snd (CombinedOutput w (take p tr) ns argv) = None
      | SetIptablesChains ns chs \<Rightarrow> setIptablesChains w (take p tr) ns chs = None)"

fun isRun :: "step \<Rightarrow> bool" where
  "isRun (Run argv) = True"
| "isRun (Abort err) = False"

text \<open>The filtered rules in the order they are processed, for the groups in the order \<open>ord\<close>.\<close>

definition filteredRules :: "string list \<Rightarrow> Tc list \<Rightarrow> Tc list" where
  "filteredRules ord tcs = concat (map snd (groupsIn ord tcs))"

text \<open>The error with which \<open>addTc\<close> rejects a rule that is not well-formed.\<close>

definition rejection :: "Tc \<Rightarrow> error" where
  "rejection tc =
     (if Tc.Type tc = Tc_BANDWIDTH then Errorf ''tbf is nil while type is BANDWIDTH''
      else if Tc.Type tc = Tc_NETEM then Errorf ''netem is nil while type is NETEM''
      else Errorf ''unknown tc qdisc type'')"

text \<open>The step \<open>s\<close> is the operation for the rule \<open>tc\<close>, under some parent and handle.\<close>

definition stepOf :: "step \<Rightarrow> Tc \<Rightarrow> bool" where
  "stepOf s tc = (\<exists>parentToks h. s = tcStep parentToks h tc)"

section \<open>Sample inputs\<close>

definition sampleQdisc :: Qdisc where
  "sampleQdisc = \<lparr>Parent = Some \<lparr>Major = 1, Minor = 0\<rparr>, Handle = None, Type = ''netem'',
     Args = [''delay'', ''50000'']\<rparr>"

text \<open>A Netem rule with only a delay, for the destination set \<open>s\<close> (\<open>[]\<close>: no filter).\<close>

definition netemTc :: "int \<Rightarrow> string \<Rightarrow> Tc" where
  "netemTc d s = \<lparr>Tc.Type = Tc_NETEM, Netem = Some (zeroNetem\<lparr>Time := d\<rparr>), Tbf = None, Ipset = s\<rparr>"

text \<open>A world in which every command and the packet filter succeed.\<close>

definition okWorld :: world where
  "okWorld = \<lparr>GetPidFromContainerID = (\<lambda>cid. Inr 1), GetNsPath = (\<lambda>pid. ''/proc/1/ns/net''),
     CombinedOutput = (\<lambda>t ns argv. ([], None)),
     setIptablesChains = (\<lambda>t ns chs. None)\<rparr>"

text \<open>A world in which every command fails with the output \<open>out\<close>.\<close>

definition failingWorld :: "string \<Rightarrow> world" where
  "failingWorld out = \<lparr>GetPidFromContainerID = (\<lambda>cid. Inr 1), GetNsPath = (\<lambda>pid. ''/proc/1/ns/net''),
     CombinedOutput = (\<lambda>t ns argv. (out, Some (ExitError ''exit status 2''))),
     setIptablesChains = (\<lambda>t ns chs. None)\<rparr>"

text \<open>
  A world in which the command issued after \<open>n\<close> earlier calls fails with the output
  \<open>out\<close>, and every other call succeeds.
\<close>

definition failAt :: "nat \<Rightarrow> string \<Rightarrow> world" where
  "failAt n out = \<lparr>GetPidFromContainerID = (\<lambda>cid. Inr 1), GetNsPath = (\<lambda>pid. ''/proc/1/ns/net''),
     CombinedOutput = (\<lambda>t ns argv. if length t = n then (out, Some (ExitError ''exit status 2''))
                                   else ([], None)),
     setIptablesChains = (\<lambda>t ns chs. None)\<rparr>"

text \<open>
  The request of the example in the comment of \<open>SetContainerTcRules\<close>: two unfiltered
  Netem rules and one Netem rule for each of the destination sets \<open>A\<close> and \<open>B\<close>.
\<close>

definition sampleRequest :: TcsRequest where
  "sampleRequest = \<lparr>ContainerId = ''c1'',
     Tcs = [netemTc 50000 [], netemTc 100000 [], netemTc 50000 ''A'', netemTc 100000 ''B'']\<rparr>"

text \<open>
  A request with one unfiltered rule, two rules for the destination set \<open>A\<close> and, between
  them, one rule for the destination set \<open>B\<close>.
\<close>

definition sampleRequest2 :: TcsRequest where
  "sampleRequest2 = \<lparr>ContainerId = ''c2'',
     Tcs = [netemTc 50000 [], netemTc 100 ''A'', netemTc 200 ''B'', netemTc 300 ''A'']\<rparr>"

text \<open>A Bandwidth rule with a rate and a burst only, for the destination set \<open>s\<close>.\<close>

definition tbfTc :: "int \<Rightarrow> int \<Rightarrow> string \<Rightarrow> Tc" where
  "tbfTc r b s = \<lparr>Tc.Type = Tc_BANDWIDTH, Netem = None,
     Tbf = Some \<lparr>Rate = r, Limit = 0, Buffer = b, PeakRate = 0, MinBurst = 0\<rparr>, Ipset = s\<rparr>"

text \<open>A request with an unfiltered Bandwidth rule followed by an unfiltered Netem rule.\<close>

definition sampleRequest3 :: TcsRequest where
  "sampleRequest3 = \<lparr>ContainerId = ''c3'', Tcs = [tbfTc 1000000 10000 [], netemTc 50000 []]\<rparr>"

text \<open>A request whose second rule is a Netem rule without its payload.\<close>

definition sampleRequest4 :: TcsRequest where
  "sampleRequest4 = \<lparr>ContainerId = ''c4'',
     Tcs = [netemTc 50000 [], (netemTc 100 [])\<lparr>Netem := None\<rparr>, netemTc 7 []]\<rparr>"

text \<open>
  A request whose last rule, the second one for the destination set \<open>A\<close>, is a Bandwidth
  rule without its payload.
\<close>

definition sampleRequest5 :: TcsRequest where
  "sampleRequest5 = \<lparr>ContainerId = ''c5'',
     Tcs = [netemTc 50000 [], netemTc 100 ''A'', (tbfTc 1 1 ''A'')\<lparr>Tbf := None\<rparr>]\<rparr>"

section \<open>Facts about the text primitives\<close>

lemma digitChar_digit: "d < 10 \<Longrightarrow> digitChar d \<in> set ''0123456789''"
  unfolding digitChar_def by (rule nth_mem) simp

lemma showNat_digits: "set (showNat n) \<subseteq> set ''0123456789''"
proof (induction n rule: showNat.induct)
  case (1 n)
  show ?case
  proof (cases "n < 10")
    case True
    then show ?thesis using digitChar_digit [of n] by (subst showNat.simps) simp
  next
    case False
    have "digitChar (n mod 10) \<in> set ''0123456789''" by (rule digitChar_digit) simp
    with False 1 show ?thesis by (subst showNat.simps) simp
  qed
qed

lemma showNat_small: "n < 10 \<Longrightarrow> showNat n = [digitChar n]"
  by (subst showNat.simps) simp

lemma showNat_big: "\<not> n < 10 \<Longrightarrow> showNat n = showNat (n div 10) @ [digitChar (n mod 10)]"
  by (subst showNat.simps) simp

lemmas show_eval = showInt_def showNat_small showNat_big digitChar_def

lemma showNat_nonempty: "showNat n \<noteq> []"
  by (subst showNat.simps) simp

lemma word_showNat [simp]: "word (showNat n)"
  using showNat_digits [of n] by (auto simp: word_def showNat_nonempty)

lemma showInt_nonempty: "showInt i \<noteq> []"
  by (simp add: showInt_def showNat_nonempty)

lemma digits_numChars: "set ''0123456789'' \<subseteq> numChars"
  by (simp add: numChars_def)

lemma showInt_chars: "set (showInt i) \<subseteq> numChars"
proof (cases "i < 0")
  case True
  have "set (showNat (nat (- i))) \<subseteq> numChars"
    using showNat_digits digits_numChars by (rule subset_trans)
  moreover have "CHR ''-'' \<in> numChars" by (simp add: numChars_def)
  ultimately show ?thesis using True by (simp add: showInt_def)
next
  case False
  have "set (showNat (nat i)) \<subseteq> numChars"
    using showNat_digits digits_numChars by (rule subset_trans)
  then show ?thesis using False by (simp add: showInt_def)
qed

lemma pad6_chars: "set s \<subseteq> numChars \<Longrightarrow> set (pad6 s) \<subseteq> numChars"
  by (auto simp: pad6_def) (simp add: numChars_def)

lemma showFloat_nonempty: "showFloat x \<noteq> []"
  by (cases x) (simp_all add: Let_def showNat_nonempty)

lemma showFloat_chars: "set (showFloat x) \<subseteq> numChars"
proof (cases x)
  case (Finite m e)
  have a: "set (showNat k) \<subseteq> numChars" for k
    using showNat_digits digits_numChars by (rule subset_trans)
  have b: "set (pad6 (showNat k)) \<subseteq> numChars" for k
    using a by (rule pad6_chars)
  have c: "CHR ''-'' \<in> numChars" "CHR ''.'' \<in> numChars" by (simp_all add: numChars_def)
  from a b c Finite show ?thesis by (auto simp: Let_def)
qed (simp_all add: numChars_def)

lemma space_numChars: "CHR '' '' \<notin> numChars"
  by (simp add: numChars_def)

lemma word_showInt [simp]: "word (showInt i)"
  using showInt_chars [of i] space_numChars by (auto simp: word_def showInt_nonempty)

lemma word_showFloat [simp]: "word (showFloat x)"
  using showFloat_chars [of x] space_numChars by (auto simp: word_def showFloat_nonempty)

lemma Split_nonempty: "Split s \<noteq> []"
  by (induction s) (auto split: list.splits)

lemma Split_append_space: "Split (a @ CHR '' '' # b) = Split a @ Split b"
  by (induction a) (auto split: list.splits simp: Split_nonempty)

lemma Split_nospace: "CHR '' '' \<notin> set s \<Longrightarrow> Split s = [s]"
  by (induction s) auto

lemma Split_word_space: "word a \<Longrightarrow> Split (a @ CHR '' '' # b) = a # Split b"
  by (simp add: Split_append_space Split_nospace word_def)

lemma Split_word: "word a \<Longrightarrow> Split a = [a]"
  by (simp add: Split_nospace word_def)

lemma word_length: "word a \<Longrightarrow> 0 < length a"
  by (simp add: word_def)

lemma toks_Nil: "toks [] = []"
  by (simp add: toks_def)

lemma toks_space: "toks (a @ CHR '' '' # b) = toks a @ toks b"
  by (simp add: toks_def Split_append_space)

lemma toks_word: "word a \<Longrightarrow> toks a = [a]"
  by (simp add: toks_def Split_word) (simp add: word_def)

lemma toks_word_space: "word a \<Longrightarrow> toks (a @ CHR '' '' # b) = a # toks b"
  by (simp add: toks_def Split_word_space) (simp add: word_def)

lemma toks_kw:
  "toks (CHR ''d'' # CHR ''e'' # CHR ''l'' # CHR ''a'' # CHR ''y'' # CHR '' '' # b) = ''delay'' # toks b"
  "toks (CHR ''r'' # CHR ''e'' # CHR ''o'' # CHR ''r'' # CHR ''d'' # CHR ''e'' # CHR ''r'' # CHR '' '' # b) = ''reorder'' # toks b"
  "toks (CHR ''g'' # CHR ''a'' # CHR ''p'' # CHR '' '' # b) = ''gap'' # toks b"
  "toks (CHR ''l'' # CHR ''i'' # CHR ''m'' # CHR ''i'' # CHR ''t'' # CHR '' '' # b) = ''limit'' # toks b"
  "toks (CHR ''l'' # CHR ''o'' # CHR ''s'' # CHR ''s'' # CHR '' '' # b) = ''loss'' # toks b"
  "toks (CHR ''d'' # CHR ''u'' # CHR ''p'' # CHR ''l'' # CHR ''i'' # CHR ''c'' # CHR ''a'' # CHR ''t'' # CHR ''e'' # CHR '' '' # b) = ''duplicate'' # toks b"
  "toks (CHR ''c'' # CHR ''o'' # CHR ''r'' # CHR ''r'' # CHR ''u'' # CHR ''p'' # CHR ''t'' # CHR '' '' # b) = ''corrupt'' # toks b"
  by (simp_all add: toks_def)

lemma convertNetemToArgs_Join:
  "convertNetemToArgs n = Join (netemTokens n) '' ''"
proof -
  define a1 where "a1 =
            (if 0 < Time n then
               (let args = ''delay '' @ showInt (Time n);
                    args =
                      (if 0 < Jitter n then
                         (let args = args @ '' '' @ showInt (Jitter n)
                          in if fpos (DelayCorr n)
                             then args @ '' '' @ showFloat (DelayCorr n) else args)
                       else args)
                in if fpos (Reorder n) then
                     (let args = args @ '' reorder '' @ showFloat (Reorder n);
                          args =
                            (if fpos (ReorderCorr n)
                             then args @ '' '' @ showFloat (ReorderCorr n) else args)
                      in if 0 < Gap n then args @ '' gap '' @ showInt (Gap n) else args)
                   else args)
             else '''')"
  define a2 where "a2 =
            (if 0 < Netem.Limit n then a1 @ '' limit '' @ showInt (Netem.Limit n)
             else a1)"
  define a3 where "a3 =
            (if fpos (Loss n) then
               (let args = a2 @ '' loss '' @ showFloat (Loss n)
                in if fpos (LossCorr n) then args @ '' '' @ showFloat (LossCorr n)
                   else args)
             else a2)"
  define a4 where "a4 =
            (if fpos (Duplicate n) then
               (let args = a3 @ '' duplicate '' @ showFloat (Duplicate n)
                in if fpos (DuplicateCorr n)
                   then args @ '' '' @ showFloat (DuplicateCorr n) else args)
             else a3)"
  define a5 where "a5 =
            (if fpos (Corrupt n) then
               (let args = a4 @ '' corrupt '' @ showFloat (Corrupt n)
                in if fpos (CorruptCorr n)
                   then args @ '' '' @ showFloat (CorruptCorr n) else args)
             else a4)"
  have c: "convertNetemToArgs n = Join (toks a5) '' ''"
    unfolding convertNetemToArgs_def toks_def a5_def a4_def a3_def a2_def a1_def Let_def ..
  have t1: "toks a1 = (if 0 < Time n then
        [''delay'', showInt (Time n)]
        @ (if 0 < Jitter n then
             showInt (Jitter n) # (if fpos (DelayCorr n) then [showFloat (DelayCorr n)] else [])
           else [])
        @ (if fpos (Reorder n) then
             [''reorder'', showFloat (Reorder n)]
             @ (if fpos (ReorderCorr n) then [showFloat (ReorderCorr n)] else [])
             @ (if 0 < Gap n then [''gap'', showInt (Gap n)] else [])
           else [])
      else [])"
    unfolding a1_def Let_def by (simp add: toks_kw toks_Nil toks_space toks_word toks_word_space)
  have t2: "toks a2 = toks a1 @ (if 0 < Netem.Limit n then [''limit'', showInt (Netem.Limit n)] else [])"
    unfolding a2_def by (simp add: toks_kw toks_Nil toks_space toks_word toks_word_space)
  have t3: "toks a3 = toks a2 @ (if fpos (Loss n) then
          [''loss'', showFloat (Loss n)] @ (if fpos (LossCorr n) then [showFloat (LossCorr n)] else [])
        else [])"
    unfolding a3_def Let_def by (simp add: toks_kw toks_Nil toks_space toks_word toks_word_space)
  have t4: "toks a4 = toks a3 @ (if fpos (Duplicate n) then
          [''duplicate'', showFloat (Duplicate n)]
          @ (if fpos (DuplicateCorr n) then [showFloat (DuplicateCorr n)] else [])
        else [])"
    unfolding a4_def Let_def by (simp add: toks_kw toks_Nil toks_space toks_word toks_word_space)
  have t5: "toks a5 = toks a4 @ (if fpos (Corrupt n) then
          [''corrupt'', showFloat (Corrupt n)]
          @ (if fpos (CorruptCorr n) then [showFloat (CorruptCorr n)] else [])
        else [])"
    unfolding a5_def Let_def by (simp add: toks_kw toks_Nil toks_space toks_word toks_word_space)
  have "toks a5 = netemTokens n"
    unfolding netemTokens_def t5 t4 t3 t2 t1 by simp
  with c show ?thesis by simp
qed

lemma Split_Join_words:
  "\<forall>w \<in> set ts. word w \<Longrightarrow> ts \<noteq> [] \<Longrightarrow> Split (Join ts '' '') = ts"
proof (induction ts)
  case Nil then show ?case by simp
next
  case (Cons x xs)
  show ?case
  proof (cases xs)
    case Nil
    with Cons.prems show ?thesis by (simp add: Split_word)
  next
    case (Cons y ys)
    with Cons.prems Cons.IH show ?thesis by (simp add: Split_word_space)
  qed
qed

lemma num_neq_kw: "set s \<subseteq> numChars \<Longrightarrow> c \<in> set k \<Longrightarrow> c \<notin> numChars \<Longrightarrow> s \<noteq> k"
  by auto

lemma kw_chars:
  "CHR ''r'' \<notin> numChars" "CHR ''l'' \<notin> numChars" "CHR ''p'' \<notin> numChars"
  "CHR ''g'' \<notin> numChars" "CHR ''d'' \<notin> numChars"
  by (simp_all add: numChars_def)

lemma showInt_neq_kw:
  "showInt i \<noteq> ''reorder''" "showInt i \<noteq> ''limit''" "showInt i \<noteq> ''peakrate''"
  "showInt i \<noteq> ''gap''" "showInt i \<noteq> ''delay''"
  using showInt_chars [of i] kw_chars by auto

lemma showFloat_neq_kw:
  "showFloat x \<noteq> ''reorder''" "showFloat x \<noteq> ''gap''" "showFloat x \<noteq> ''delay''"
  using showFloat_chars [of x] kw_chars by auto

lemma kw_words:
  "word ''delay''" "word ''reorder''" "word ''gap''" "word ''limit''" "word ''loss''"
  "word ''duplicate''" "word ''corrupt''" "word ''rate''" "word ''burst''" "word ''peakrate''"
  "word ''mtu''"
  by (simp_all add: word_def)

lemma netemTokens_words: "\<forall>w \<in> set (netemTokens n). word w"
  by (auto simp: netemTokens_def kw_words)

lemma netemTokens_no_delay:
  "\<not> 0 < Time n \<Longrightarrow> ''reorder'' \<notin> set (netemTokens n) \<and> ''gap'' \<notin> set (netemTokens n)
     \<and> ''delay'' \<notin> set (netemTokens n)"
  using showInt_neq_kw [symmetric] showFloat_neq_kw [symmetric]
  by (simp add: netemTokens_def)

lemma Split_convertNetemToArgs:
  "Split (convertNetemToArgs n) = (if netemTokens n = [] then [[]] else netemTokens n)"
  using Split_Join_words [OF netemTokens_words, of n]
  by (simp add: convertNetemToArgs_Join)

lemma pad6_eval:
  "pad6 s = (if length s = 1 then ''00000'' @ s else if length s = 2 then ''0000'' @ s
     else if length s = 3 then ''000'' @ s else if length s = 4 then ''00'' @ s
     else if length s = 5 then ''0'' @ s else if length s = 0 then ''000000'' else s)"
proof -
  have "length s = 0 \<or> length s = 1 \<or> length s = 2 \<or> length s = 3 \<or> length s = 4
      \<or> length s = 5 \<or> 6 \<le> length s" by arith
  then show ?thesis
    by (elim disjE) (auto simp: pad6_def eval_nat_numeral)
qed

lemmas float_eval = roundHalfEven_def Let_def

lemma kw_chars2:
  "CHR ''m'' \<notin> numChars" "CHR ''l'' \<notin> numChars" "CHR ''p'' \<notin> numChars"
  by (simp_all add: numChars_def)

lemma showInt_neq_kw2:
  "showInt i \<noteq> ''limit''" "showInt i \<noteq> ''peakrate''" "showInt i \<noteq> ''mtu''"
  using showInt_chars [of i] kw_chars2 by auto

lemma digitChar_inj: "a < 10 \<Longrightarrow> b < 10 \<Longrightarrow> digitChar a = digitChar b \<Longrightarrow> a = b"
proof -
  assume a: "a < 10" and b: "b < 10" and e: "digitChar a = digitChar b"
  have d: "distinct ''0123456789''" by simp
  from a b have "a < length ''0123456789''" "b < length ''0123456789''" by simp_all
  from nth_eq_iff_index_eq [OF d this] e show "a = b" by (simp add: digitChar_def)
qed

lemma showNat_inj: "showNat n = showNat m \<Longrightarrow> n = m"
proof (induction n arbitrary: m rule: less_induct)
  case (less n)
  show ?case
  proof (cases "n < 10")
    case n: True
    show ?thesis
    proof (cases "m < 10")
      case True
      with n less.prems show ?thesis by (simp add: showNat_small digitChar_inj)
    next
      case False
      with n less.prems showNat_nonempty [of "m div 10"] show ?thesis
        by (simp add: showNat_small showNat_big)
    qed
  next
    case n: False
    show ?thesis
    proof (cases "m < 10")
      case True
      with n less.prems showNat_nonempty [of "n div 10"] show ?thesis
        by (simp add: showNat_small showNat_big)
    next
      case False
      with n less.prems have e: "showNat (n div 10) = showNat (m div 10)"
        and d: "digitChar (n mod 10) = digitChar (m mod 10)"
        by (simp_all add: showNat_big)
      from n have "n div 10 < n" by simp
      from less.IH [OF this e] have q: "n div 10 = m div 10" .
      have "n mod 10 = m mod 10" by (rule digitChar_inj [OF _ _ d]) simp_all
      with q show ?thesis by (metis div_mult_mod_eq)
    qed
  qed
qed

lemma showNat_no_minus: "showNat n \<noteq> CHR ''-'' # s"
proof
  assume "showNat n = CHR ''-'' # s"
  then have "CHR ''-'' \<in> set (showNat n)" by simp
  with showNat_digits [of n] show False by auto
qed

lemma showInt_inj: "showInt i = showInt j \<Longrightarrow> i = j"
proof -
  assume e: "showInt i = showInt j"
  show ?thesis
  proof (cases "i < 0"; cases "j < 0")
    assume "i < 0" "j < 0"
    with e have "showNat (nat (- i)) = showNat (nat (- j))" by (simp add: showInt_def)
    from showNat_inj [OF this] \<open>i < 0\<close> \<open>j < 0\<close> show ?thesis by simp
  next
    assume "i < 0" "\<not> j < 0"
    with e showNat_no_minus [of "nat j" "showNat (nat (- i))"] show ?thesis
      by (simp add: showInt_def)
  next
    assume "\<not> i < 0" "j < 0"
    with e showNat_no_minus [of "nat i" "showNat (nat (- j))"] show ?thesis
      by (simp add: showInt_def)
  next
    assume "\<not> i < 0" "\<not> j < 0"
    with e have "showNat (nat i) = showNat (nat j)" by (simp add: showInt_def)
    from showNat_inj [OF this] \<open>\<not> i < 0\<close> \<open>\<not> j < 0\<close> show ?thesis by simp
  qed
qed

lemma tbfTokens_words: "\<forall>w \<in> set (tbfTokens t). word w"
  by (auto simp: tbfTokens_def kw_words)

lemma convertTbfToArgs_Join: "convertTbfToArgs t = Join (tbfTokens t) '' ''"
  by (simp add: convertTbfToArgs_def tbfTokens_def)

lemma Split_convertTbfToArgs: "Split (convertTbfToArgs t) = tbfTokens t"
  using Split_Join_words [OF tbfTokens_words, of t]
  by (simp add: convertTbfToArgs_Join) (simp add: tbfTokens_def)

text \<open>
  What \<open>flush\<close> does: it succeeds when the command succeeds, and when the command fails
  with an output that contains the older message; otherwise it returns the error.
\<close>

lemma flush_cases:
  "flush w c t =
     (case CombinedOutput w t (nsPath c) [''qdisc'', ''del'', ''dev'', ''eth0'', ''root''] of
        (output, None) \<Rightarrow> (None, t @ [Exec (nsPath c) [''qdisc'', ''del'', ''dev'', ''eth0'', ''root'']])
      | (output, Some e) \<Rightarrow>
          (if Contains output ruleNotExistLowerVersion then None else Some e,
           t @ [Exec (nsPath c) [''qdisc'', ''del'', ''dev'', ''eth0'', ''root'']]))"
  by (simp add: flush_def runTc_def RULE_NOT_EXIST_def ruleNotExistLowerVersion_def
      split: prod.splits option.splits)

section \<open>The compiler runs the plan\<close>

lemma runSteps_append:
  "runSteps w ns (a @ b) t =
     (case runSteps w ns a t of (Some e, t') \<Rightarrow> (Some e, t') | (None, t') \<Rightarrow> runSteps w ns b t')"
  by (induction w ns a t rule: runSteps.induct) (auto split: prod.splits option.splits)

lemma nospace_showInt [simp]: "CHR '' '' \<notin> set (showInt i)"
  using word_showInt [of i] by (simp add: word_def)

lemma Split_nospace_append:
  "CHR '' '' \<notin> set a \<Longrightarrow> Split (a @ b) = (a @ hd (Split b)) # tl (Split b)"
  by (induction a) (auto split: list.splits simp: Split_nonempty)

lemma Split_showInt_append [simp]:
  "Split (showInt i @ b) = (showInt i @ hd (Split b)) # tl (Split b)"
  by (rule Split_nospace_append) simp

lemma Split_showInt [simp]: "Split (showInt i) = [showInt i]"
  by (simp add: Split_word)

lemma addTc_refines:
  "addTc w c parentArg (''handle '' @ showInt h @ '':'') tc t
   = runSteps w (nsPath c) [tcStep (Split parentArg) h tc] t"
  by (cases "Tc.Type tc"; cases "Tbf tc"; cases "Netem tc")
     (simp_all add: addTc_def addNetem_def addTbf_def tcStep_def tcKindArgs_def runTc_def
        Split_append_space split: prod.splits option.splits)

lemma Split_globalParent:
  "Split (if 0 < int i then ''parent '' @ showInt (int i) @ '':'' else ''root'') = globalParent i"
  by (simp add: globalParent_def)

lemma runSteps_Cons:
  "runSteps w ns (s # steps) t =
     (case runSteps w ns [s] t of (Some e, t') \<Rightarrow> (Some e, t') | (None, t') \<Rightarrow> runSteps w ns steps t')"
  using runSteps_append [of w ns "[s]" steps t] by simp

lemma globalTcLoop_refines:
  "globalTcLoop w c (int i) tcs t = withStack (runSteps w (nsPath c) (globalStepsFrom i tcs) t)"
proof (induction tcs arbitrary: i t)
  case Nil
  show ?case by simp
next
  case (Cons tc tcs)
  have ih: "globalTcLoop w c (int i + 1) tcs t'
      = withStack (runSteps w (nsPath c) (globalStepsFrom (Suc i) tcs) t')" for t'
    using Cons.IH [of "Suc i" t'] by (simp add: add.commute)
  show ?case
    apply (simp only: globalTcLoop.simps globalStepsFrom.simps Let_def addTc_refines
        Split_globalParent ih)
    apply (subst (2) runSteps_Cons)
    apply (simp split: prod.splits option.splits)
    done
qed

lemma Split_filterParent:
  "Split (if 0 < int i then ''parent '' @ showInt h @ '':''
          else ''parent '' @ showInt (int g + 1) @ '':'' @ showInt (int j + 4))
   = filterParent g j i h"
  by (simp add: filterParent_def)

lemma groupTcLoop_refines:
  "groupTcLoop w c (int g + 1) (int j) (int i) tcs h t = (res, h', t')
   \<Longrightarrow> withStack (runSteps w (nsPath c) (groupStepsFrom g j i h tcs) t) = (res, t')
       \<and> (res = None \<longrightarrow> h' = h + int (length tcs))"
proof (induction tcs arbitrary: i h t)
  case Nil
  then show ?case by simp
next
  case (Cons tc tcs)
  let ?s = "tcStep (filterParent g j i h) (h + 1) tc"
  obtain r1 t1 where r1: "runSteps w (nsPath c) [?s] t = (r1, t1)" by force
  have step: "runSteps w (nsPath c) (groupStepsFrom g j i h (tc # tcs)) t
      = (case r1 of Some e \<Rightarrow> (Some e, t1)
         | None \<Rightarrow> runSteps w (nsPath c) (groupStepsFrom g j (Suc i) (h + 1) tcs) t1)"
    using r1 by (cases ?s) (auto split: prod.splits option.splits)
  have unf: "groupTcLoop w c (int g + 1) (int j) (int i) (tc # tcs) h t
      = (case runSteps w (nsPath c) [?s] t of
           (Some err, t') \<Rightarrow> (Some (WithStack err), h + 1, t')
         | (None, t') \<Rightarrow> groupTcLoop w c (int g + 1) (int j) (int i + 1) tcs (h + 1) t')"
    by (simp only: groupTcLoop.simps Let_def addTc_refines Split_filterParent)
  have suc: "int i + 1 = int (Suc i)" by simp
  show ?case
  proof (cases r1)
    case None
    with Cons.prems r1
    have "groupTcLoop w c (int g + 1) (int j) (int (Suc i)) tcs (h + 1) t1 = (res, h', t')"
      unfolding unf suc by simp
    from Cons.IH [OF this] None step show ?thesis by simp
  next
    case (Some e)
    with Cons.prems r1 have "res = Some (WithStack e)" "t' = t1"
      unfolding unf by simp_all
    with Some step show ?thesis by simp
  qed
qed

lemma filterTcLoop_refines:
  "filterTcLoop w c (int g + 1) (int j) groups h chs t = (res, chs', t')
   \<Longrightarrow> withStack (runSteps w (nsPath c) (filterStepsFrom g j h groups) t) = (res, t')
       \<and> (res = None \<longrightarrow> chs' = chs @ tcChainsFrom g j (map fst groups))"
proof (induction groups arbitrary: j h chs t)
  case Nil
  then show ?case by simp
next
  case (Cons grp groups)
  obtain ipset tcs where grp: "grp = (ipset, tcs)" by (cases grp)
  obtain r1 h1 t1 where r1: "groupTcLoop w c (int g + 1) (int j) (int 0) tcs h t = (r1, h1, t1)"
    by (cases "groupTcLoop w c (int g + 1) (int j) (int 0) tcs h t") auto
  from groupTcLoop_refines [OF r1]
  have g1: "withStack (runSteps w (nsPath c) (groupStepsFrom g j 0 h tcs) t) = (r1, t1)"
    and g2: "r1 = None \<longrightarrow> h1 = h + int (length tcs)" by simp_all
  show ?case
  proof (cases r1)
    case None
    with g1 have rs: "runSteps w (nsPath c) (groupStepsFrom g j 0 h tcs) t = (None, t1)"
      by (cases "runSteps w (nsPath c) (groupStepsFrom g j 0 h tcs) t" rule: withStack.cases) simp_all
    from None g2 have h1: "h1 = h + int (length tcs)" by simp
    from Cons.prems grp r1 None h1
    have "filterTcLoop w c (int g + 1) (int (Suc j)) groups (h + int (length tcs))
            (chs @ [tcChain g j ipset]) t1 = (res, chs', t')"
      by (simp add: tcChain_def add.commute)
    from Cons.IH [OF this] grp rs show ?thesis
      by (simp add: runSteps_append)
  next
    case (Some e)
    with g1 obtain e' where rs: "runSteps w (nsPath c) (groupStepsFrom g j 0 h tcs) t = (Some e', t1)"
      and e: "e = WithStack e'"
      by (cases "runSteps w (nsPath c) (groupStepsFrom g j 0 h tcs) t" rule: withStack.cases) auto
    from Cons.prems grp r1 Some have "res = Some e" "t' = t1" by simp_all
    with grp rs e show ?thesis by (simp add: runSteps_append)
  qed
qed

lemma Split_sfq:
  "Split (''qdisc add dev eth0 parent '' @ showInt p @ '':'' @ showInt i
                    @ '' handle '' @ showInt q @ '': sfq'')
      = [''qdisc'', ''add'', ''dev'', ''eth0'', ''parent'', showInt p @ '':'' @ showInt i,
         ''handle'', showInt q @ '':'', ''sfq'']"
  by (simp add: Split_append_space)

lemma Split_prio:
  "Split (''qdisc add dev eth0 ''
        @ (if 0 < int g then ''parent '' @ showInt (int g) @ '':'' else ''root'')
        @ '' handle '' @ showInt (int g + 1) @ '': prio bands '' @ showInt (3 + int k)
        @ '' priomap 1 2 2 2 1 2 0 0 1 1 1 1 1 1 1 1'') = prioArgv g k"
  by (simp add: prioArgv_def globalParent_def Split_append_space)

lemma runSteps_Run:
  "runSteps w ns (Run argv # steps) t =
     (if snd (CombinedOutput w t ns argv) = None then runSteps w ns steps (t @ [Exec ns argv])
      else (Some (encodeOutputToError (fst (CombinedOutput w t ns argv))
                    (the (snd (CombinedOutput w t ns argv)))), t @ [Exec ns argv]))"
  by (simp split: prod.splits option.splits)

lemma addPrioSfq_step:
  "index \<le> 3 \<Longrightarrow>
   addPrioSfq w c (int g) index t =
     (if snd (CombinedOutput w t (nsPath c)
                [''qdisc'', ''add'', ''dev'', ''eth0'', ''parent'', showInt (int g + 1) @ '':'' @ showInt index,
                 ''handle'', showInt (int g + 1 + index) @ '':'', ''sfq'']) = None
      then addPrioSfq w c (int g) (index + 1)
             (t @ [Exec (nsPath c) [''qdisc'', ''add'', ''dev'', ''eth0'', ''parent'', showInt (int g + 1) @ '':'' @ showInt index,
                 ''handle'', showInt (int g + 1 + index) @ '':'', ''sfq'']])
      else (Some (encodeOutputToError
                    (fst (CombinedOutput w t (nsPath c)
                [''qdisc'', ''add'', ''dev'', ''eth0'', ''parent'', showInt (int g + 1) @ '':'' @ showInt index,
                 ''handle'', showInt (int g + 1 + index) @ '':'', ''sfq'']))
                    (the (snd (CombinedOutput w t (nsPath c)
                [''qdisc'', ''add'', ''dev'', ''eth0'', ''parent'', showInt (int g + 1) @ '':'' @ showInt index,
                 ''handle'', showInt (int g + 1 + index) @ '':'', ''sfq''])))),
            t @ [Exec (nsPath c) [''qdisc'', ''add'', ''dev'', ''eth0'', ''parent'', showInt (int g + 1) @ '':'' @ showInt index,
                 ''handle'', showInt (int g + 1 + index) @ '':'', ''sfq'']]))"
  apply (subst addPrioSfq.simps)
  apply (simp only: Let_def Split_sfq runTc_def if_True)
  apply (simp split: prod.splits option.splits)
  done

lemma addPrioSfq_done: "addPrioSfq w c p 4 t = (None, t)"
  by (subst addPrioSfq.simps) simp

lemma addPrioSfq_refines:
  "addPrioSfq w c (int g) 1 t
   = runSteps w (nsPath c) [Run (sfqArgv g 1), Run (sfqArgv g 2), Run (sfqArgv g 3)] t"
  by (simp add: addPrioSfq_step addPrioSfq_done runSteps_Run sfqArgv_def del: runSteps.simps(3))

lemma addPrio_refines:
  "addPrio w c (int g) (3 + int k) t = runSteps w (nsPath c) (prioSteps g k) t"
  unfolding addPrio_def Let_def Split_prio prioSteps_def
  by (simp add: runTc_def addPrioSfq_refines del: runSteps.simps(3) add: runSteps_Run split: prod.splits option.splits)

lemma map_of_goStore: "map_of (goStore k v m) = (map_of m)(k \<mapsto> v)"
  by (induction m) (auto simp: fun_eq_iff)

lemma keys_goStore:
  "map fst (goStore k v m) = (if k \<in> set (map fst m) then map fst m else map fst m @ [k])"
  by (induction m) auto

lemma goLookup_goStore:
  "goLookup (goStore k v m) k' = (if k' = k then v else goLookup m k')"
  by (simp add: goLookup_def map_of_goStore)

lemma fst_splitTcs: "fst (splitTcs tcs g f) = g @ globalRules tcs"
  by (induction tcs arbitrary: g f) (simp_all add: globalRules_def)

lemma goLookup_splitTcs:
  "k \<noteq> [] \<Longrightarrow> goLookup (snd (splitTcs tcs g f)) k = goLookup f k @ groupRules tcs k"
  by (induction tcs arbitrary: g f) (auto simp: groupRules_def goLookup_goStore)

lemma keys_splitTcs:
  "distinct (map fst f) \<Longrightarrow>
   distinct (map fst (snd (splitTcs tcs g f)))
   \<and> set (map fst (snd (splitTcs tcs g f)))
       = set (map fst f) \<union> set (filter (\<lambda>s. s \<noteq> []) (map Ipset tcs))"
proof (induction tcs arbitrary: g f)
  case Nil
  then show ?case by simp
next
  case (Cons tc tcs)
  show ?case
  proof (cases "Ipset tc = []")
    case True
    with Cons show ?thesis by simp
  next
    case False
    let ?f = "goStore (Ipset tc) (goLookup f (Ipset tc) @ [tc]) f"
    from Cons.prems have d: "distinct (map fst ?f)" by (simp add: keys_goStore)
    have s: "set (map fst ?f) = insert (Ipset tc) (set (map fst f))"
      by (auto simp: keys_goStore)
    from Cons.IH [OF d, of g] False s show ?thesis by auto
  qed
qed

lemma firstSeen_set: "set (firstSeen xs) = set xs"
  by (induction xs) auto

lemma firstSeen_distinct: "distinct (firstSeen xs)"
  by (induction xs) (auto simp: distinct_removeAll)

lemma keys_filterTc:
  "distinct (map fst (snd (splitTcs tcs [] [])))"
  "set (map fst (snd (splitTcs tcs [] []))) = set (destinationSets tcs)"
  using keys_splitTcs [of "[]" tcs "[]"] by (simp_all add: destinationSets_def firstSeen_set)

lemma length_filterTc: "length (snd (splitTcs tcs [] [])) = length (destinationSets tcs)"
proof -
  have "length (map fst (snd (splitTcs tcs [] []))) = card (set (map fst (snd (splitTcs tcs [] []))))"
    using keys_filterTc(1) [of tcs] by (simp only: distinct_card)
  also have "\<dots> = card (set (destinationSets tcs))" by (simp only: keys_filterTc(2))
  also have "\<dots> = length (destinationSets tcs)"
    by (simp add: distinct_card destinationSets_def firstSeen_distinct)
  finally show ?thesis by simp
qed

lemma rangeOrder_filterTc:
  "rangeOrder ord (snd (splitTcs tcs [] [])) \<longleftrightarrow> distinct ord \<and> set ord = set (destinationSets tcs)"
  by (simp only: rangeOrder_def keys_filterTc(2))

lemma destinationSets_nonempty: "[] \<notin> set (destinationSets tcs)"
  by (simp add: destinationSets_def firstSeen_set)

lemma rangeMap_filterTc:
  "set ord \<subseteq> set (destinationSets tcs) \<Longrightarrow> rangeMap ord (snd (splitTcs tcs [] [])) = groupsIn ord tcs"
proof -
  assume a: "set ord \<subseteq> set (destinationSets tcs)"
  have "goLookup (snd (splitTcs tcs [] [])) k = groupRules tcs k" if "k \<in> set ord" for k
  proof -
    from that a destinationSets_nonempty [of tcs] have "k \<noteq> []" by auto
    from goLookup_splitTcs [OF this, of tcs "[]" "[]"] show ?thesis by (simp add: goLookup_def)
  qed
  then show ?thesis by (simp add: rangeMap_def groupsIn_def)
qed

lemma runSteps_extends: "runSteps w ns steps t = (res, t') \<Longrightarrow> \<exists>new. t' = t @ new"
  by (induction w ns steps t rule: runSteps.induct) (auto split: prod.splits option.splits)

lemma runSteps_length_ok:
  "runSteps w ns steps t = (None, t') \<Longrightarrow> length t' = length t + length steps"
  by (induction w ns steps t rule: runSteps.induct) (auto split: prod.splits option.splits)

lemma runSteps_length_le:
  "runSteps w ns steps t = (res, t') \<Longrightarrow> length t' \<le> length t + length steps"
  by (induction w ns steps t rule: runSteps.induct) (auto split: prod.splits option.splits)

lemma runSteps_nth:
  "runSteps w ns steps t = (res, t') \<Longrightarrow> i < length steps \<Longrightarrow> length t + i < length t'
   \<Longrightarrow> \<exists>argv. steps ! i = Run argv \<and> t' ! (length t + i) = Exec ns argv"
proof (induction w ns steps t arbitrary: i rule: runSteps.induct)
  case (1 w ns t)
  then show ?case by simp
next
  case (2 w ns err steps t)
  then show ?case by simp
next
  case (3 w ns argv steps t)
  obtain out r where co: "CombinedOutput w t ns argv = (out, r)" by force
  show ?case
  proof (cases r)
    case (Some e)
    with 3 co show ?thesis by (cases i) auto
  next
    case None
    with 3 co have rs: "runSteps w ns steps (t @ [Exec ns argv]) = (res, t')" by simp
    from runSteps_extends [OF rs] obtain new where t': "t' = (t @ [Exec ns argv]) @ new" ..
    show ?thesis
    proof (cases i)
      case 0
      with t' show ?thesis by (simp add: nth_append)
    next
      case (Suc i')
      with "3.prems" have "i' < length steps" "length (t @ [Exec ns argv]) + i' < length t'"
        by simp_all
      from "3.IH" [OF co [symmetric] _ rs this] None Suc show ?thesis by simp
    qed
  qed
qed

lemma runSteps_failure:
  "runSteps w ns steps t = (res, t') \<Longrightarrow> length t \<le> p \<Longrightarrow> p < length t'
   \<Longrightarrow> t' ! p = Exec ns' argv \<Longrightarrow> CombinedOutput w (take p t') ns' argv = (out, Some e)
   \<Longrightarrow> length t' = Suc p \<and> res = Some (encodeOutputToError out e)"
proof (induction w ns steps t rule: runSteps.induct)
  case (1 w ns t)
  then show ?case by simp
next
  case (2 w ns err steps t)
  then show ?case by simp
next
  case (3 w ns a steps t)
  obtain out' r where co: "CombinedOutput w t ns a = (out', r)" by force
  show ?case
  proof (cases r)
    case (Some e')
    with 3 co have "t' = t @ [Exec ns a]" "res = Some (encodeOutputToError out' e')" by simp_all
    moreover with "3.prems" have "p = length t" by simp
    ultimately show ?thesis using "3.prems" co Some by simp
  next
    case None
    with 3 co have rs: "runSteps w ns steps (t @ [Exec ns a]) = (res, t')" by simp
    from runSteps_extends [OF rs] obtain new where t': "t' = (t @ [Exec ns a]) @ new" ..
    show ?thesis
    proof (cases "p = length t")
      case True
      with t' "3.prems" co None show ?thesis by (simp add: nth_append)
    next
      case False
      with "3.prems" have "length (t @ [Exec ns a]) \<le> p" by simp
      from "3.IH" [OF co [symmetric] _ rs this "3.prems"(3,4,5)] None show ?thesis by simp
    qed
  qed
qed

lemma flush_trace: "snd (flush w c t) = t @ [Exec (nsPath c) flushArgv]"
  by (simp add: flush_def runTc_def flushArgv_def split: prod.splits option.splits)

lemma SetContainerTcRules_pid_error:
  "GetPidFromContainerID w (ContainerId req) = Inl err
   \<Longrightarrow> SetContainerTcRules w ord req = (Some (WithStack err), [])"
  by (simp add: SetContainerTcRules_def)

lemma SetContainerTcRules_flush_error:
  "GetPidFromContainerID w (ContainerId req) = Inr pid
   \<Longrightarrow> fst (flush w (buildTcClient (GetNsPath w pid)) []) = Some err
   \<Longrightarrow> SetContainerTcRules w ord req = (Some (WithStack err), [Exec (GetNsPath w pid) flushArgv])"
  using flush_trace [of w "buildTcClient (GetNsPath w pid)" "[]"]
  by (cases "flush w (buildTcClient (GetNsPath w pid)) []")
     (simp add: SetContainerTcRules_def buildTcClient_def)

lemma SetContainerTcRules_plan:
  assumes pid: "GetPidFromContainerID w (ContainerId req) = Inr pid"
    and fl: "fst (flush w (buildTcClient (GetNsPath w pid)) []) = None"
  shows "SetContainerTcRules w ord req =
     (case runSteps w (GetNsPath w pid)
             (planSteps (Tcs req) (rangeMap ord (snd (splitTcs (Tcs req) [] []))))
             [Exec (GetNsPath w pid) flushArgv] of
        (Some e, t) \<Rightarrow> (Some (WithStack e), t)
      | (None, t) \<Rightarrow>
          (map_option WithStack
             (setIptablesChains w t (GetNsPath w pid)
                (tcChains (length (globalRules (Tcs req))) ord)),
           t @ [SetIptablesChains (GetNsPath w pid)
                  (tcChains (length (globalRules (Tcs req))) ord)]))"
proof -
  let ?ns = "GetNsPath w pid"
  let ?c = "buildTcClient ?ns"
  let ?t0 = "[Exec ?ns flushArgv]"
  let ?tcs = "Tcs req"
  obtain G f where sp: "splitTcs ?tcs [] [] = (G, f)" by force
  have Geq: "globalRules ?tcs = G"
    using fst_splitTcs [of ?tcs "[]" "[]"] sp by simp
  have keq: "length (destinationSets ?tcs) = length f"
    using length_filterTc [of ?tcs] sp by simp
  let ?g = "length G"
  let ?k = "length f"
  let ?groups = "rangeMap ord f"
  have ns: "nsPath ?c = ?ns" by (simp add: buildTcClient_def)
  have fl': "flush w ?c [] = (None, ?t0)"
    using fl flush_trace [of w ?c "[]"] ns by (cases "flush w ?c []") simp
  have keys: "map fst ?groups = ord" by (simp add: rangeMap_def comp_def)
  obtain r1 t1 where r1: "runSteps w ?ns (globalSteps G) ?t0 = (r1, t1)" by force
  have gl: "globalTcLoop w ?c 0 G ?t0 = withStack (r1, t1)"
    using globalTcLoop_refines [of w ?c 0 G ?t0] r1 ns by (simp add: globalSteps_def)
  obtain r2 t2 where r2: "runSteps w ?ns (prioSteps ?g ?k) t1 = (r2, t2)" by force
  have pr: "addPrio w ?c (int ?g) (3 + int ?k) t1 = (r2, t2)"
    using addPrio_refines [of w ?c ?g ?k t1] r2 ns by simp
  obtain r3 chs t3 where r3:
    "filterTcLoop w ?c (int ?g + 1) (int 0) ?groups (int ?g + 1 + 3) [] t2 = (r3, chs, t3)"
    by (cases "filterTcLoop w ?c (int ?g + 1) (int 0) ?groups (int ?g + 1 + 3) [] t2") auto
  have h4: "int ?g + 1 + 3 = int ?g + 4" by simp
  from filterTcLoop_refines [OF r3] ns keys
  have f1: "withStack (runSteps w ?ns (filterSteps ?g ?groups) t2) = (r3, t3)"
    and f2: "r3 = None \<longrightarrow> chs = tcChains ?g ord"
    by (simp_all add: filterSteps_def tcChains_def h4)
  have plan: "runSteps w ?ns (planSteps ?tcs ?groups) ?t0 =
      (case r1 of Some e \<Rightarrow> (Some e, t1)
       | None \<Rightarrow> (case r2 of Some e \<Rightarrow> (Some e, t2)
                  | None \<Rightarrow> runSteps w ?ns (filterSteps ?g ?groups) t2))"
    using r1 r2 by (simp add: planSteps_def Geq keq runSteps_append split: option.splits)
  have r3': "filterTcLoop w ?c (int ?g + 1) 0 ?groups (4 + int ?g) [] t2 = (r3, chs, t3)"
    using r3 by (simp add: add.commute)
  have body: "SetContainerTcRules w ord req =
      (case withStack (r1, t1) of
         (Some err, t) \<Rightarrow> (Some err, t)
       | (None, t) \<Rightarrow>
           (case (r2, t2) of
              (Some err, t) \<Rightarrow> (Some (WithStack err), t)
            | (None, t) \<Rightarrow>
                (case (r3, chs, t3) of
                   (Some err, chainList, t) \<Rightarrow> (Some err, t)
                 | (None, chainList, t) \<Rightarrow>
                     (case setIptablesChains w t ?ns chainList of
                        Some err \<Rightarrow> (Some (WithStack err), t @ [SetIptablesChains ?ns chainList])
                      | None \<Rightarrow> (None, t @ [SetIptablesChains ?ns chainList])))))"
  proof (cases r1)
    case (Some e)
    then show ?thesis
      by (simp add: SetContainerTcRules_def pid Let_def fl' sp gl)
  next
    case n1: None
    show ?thesis
    proof (cases r2)
      case (Some e)
      with n1 show ?thesis
        by (simp add: SetContainerTcRules_def pid Let_def fl' sp gl pr)
    next
      case n2: None
      with n1 show ?thesis
        by (simp add: SetContainerTcRules_def pid Let_def fl' sp gl pr r3')
    qed
  qed
  have goal: "SetContainerTcRules w ord req =
     (case runSteps w ?ns (planSteps ?tcs ?groups) ?t0 of
        (Some e, t) \<Rightarrow> (Some (WithStack e), t)
      | (None, t) \<Rightarrow>
          (map_option WithStack (setIptablesChains w t ?ns (tcChains ?g ord)),
           t @ [SetIptablesChains ?ns (tcChains ?g ord)]))"
  proof (cases r1)
    case (Some e)
    with body plan show ?thesis by simp
  next
    case n1: None
    show ?thesis
    proof (cases r2)
      case (Some e)
      with n1 body plan show ?thesis by simp
    next
      case n2: None
      obtain r3' t3' where rs3: "runSteps w ?ns (filterSteps ?g ?groups) t2 = (r3', t3')" by force
      with f1 have w3: "withStack (r3', t3') = (r3, t3)" by simp
      show ?thesis
      proof (cases r3')
        case (Some e)
        with w3 have "r3 = Some (WithStack e)" "t3 = t3'" by simp_all
        with n1 n2 body plan rs3 Some show ?thesis by simp
      next
        case None
        with w3 have "r3 = None" "t3 = t3'" by simp_all
        with n1 n2 body plan rs3 None f2 show ?thesis by (simp split: option.splits)
      qed
    qed
  qed
  show ?thesis unfolding sp snd_conv Geq by (rule goal)
qed

lemma length_globalStepsFrom: "length (globalStepsFrom i tcs) = length tcs"
  by (induction tcs arbitrary: i) simp_all

lemma nth_globalStepsFrom:
  "n < length tcs \<Longrightarrow>
   globalStepsFrom i tcs ! n = tcStep (globalParent (i + n)) (int (i + n) + 1) (tcs ! n)"
proof (induction tcs arbitrary: i n)
  case Nil
  then show ?case by simp
next
  case (Cons tc tcs)
  show ?case
  proof (cases n)
    case 0
    then show ?thesis by simp
  next
    case (Suc n')
    with Cons.prems have "n' < length tcs" by simp
    from Cons.IH [OF this, of "Suc i"] Suc show ?thesis by simp
  qed
qed

lemma length_groupStepsFrom: "length (groupStepsFrom g j i h tcs) = length tcs"
  by (induction tcs arbitrary: i h) simp_all

lemma nth_groupStepsFrom:
  "n < length tcs \<Longrightarrow>
   groupStepsFrom g j i h tcs ! n
   = tcStep (filterParent g j (i + n) (h + int n)) (h + int n + 1) (tcs ! n)"
proof (induction tcs arbitrary: i h n)
  case Nil
  then show ?case by simp
next
  case (Cons tc tcs)
  show ?case
  proof (cases n)
    case 0
    then show ?thesis by simp
  next
    case (Suc n')
    with Cons.prems have "n' < length tcs" by simp
    from Cons.IH [OF this, of "Suc i" "h + 1"] Suc show ?thesis by (simp add: algebra_simps)
  qed
qed

lemma length_filterStepsFrom:
  "length (filterStepsFrom g j h groups) = length (concat (map snd groups))"
  by (induction groups arbitrary: j h) (auto simp: length_groupStepsFrom)

lemma groupOffset_0: "groupOffset groups 0 = 0"
  by (simp add: groupOffset_def)

lemma groupOffset_Suc:
  "groupOffset ((ipset, tcs) # groups) (Suc j) = length tcs + groupOffset groups j"
  by (simp add: groupOffset_def)

lemma groupOffset_bound:
  "j < length groups \<Longrightarrow> i < length (snd (groups ! j))
   \<Longrightarrow> groupOffset groups j + i < length (concat (map snd groups))"
proof (induction groups arbitrary: j)
  case Nil
  then show ?case by simp
next
  case (Cons grp groups)
  obtain ipset tcs where grp: "grp = (ipset, tcs)" by (cases grp)
  show ?case
  proof (cases j)
    case 0
    with Cons.prems grp show ?thesis by (simp add: groupOffset_0)
  next
    case (Suc j')
    with Cons.prems have "j' < length groups" "i < length (snd (groups ! j'))" by simp_all
    from Cons.IH [OF this] Suc grp show ?thesis by (simp add: groupOffset_Suc)
  qed
qed

lemma nth_filterStepsFrom:
  "j' < length groups \<Longrightarrow> i < length (snd (groups ! j')) \<Longrightarrow>
   filterStepsFrom g j h groups ! (groupOffset groups j' + i)
   = tcStep (filterParent g (j + j') i (h + int (groupOffset groups j' + i)))
       (h + int (groupOffset groups j' + i) + 1) (snd (groups ! j') ! i)"
proof (induction groups arbitrary: j h j')
  case Nil
  then show ?case by simp
next
  case (Cons grp groups)
  obtain ipset tcs where grp: "grp = (ipset, tcs)" by (cases grp)
  show ?case
  proof (cases j')
    case 0
    with Cons.prems grp have i: "i < length tcs" by simp
    with 0 grp show ?thesis
      by (simp add: groupOffset_0 nth_append length_groupStepsFrom nth_groupStepsFrom)
  next
    case (Suc j'')
    with Cons.prems have a: "j'' < length groups" "i < length (snd (groups ! j''))" by simp_all
    from Cons.IH [OF a, of "Suc j" "h + int (length tcs)"] Suc grp
    show ?thesis
      by (simp add: groupOffset_Suc nth_append length_groupStepsFrom algebra_simps)
  qed
qed

lemma length_tcChainsFrom: "length (tcChainsFrom g j ord) = length ord"
  by (induction ord arbitrary: j) simp_all

lemma nth_tcChainsFrom:
  "n < length ord \<Longrightarrow> tcChainsFrom g j ord ! n = tcChain g (j + n) (ord ! n)"
proof (induction ord arbitrary: j n)
  case Nil
  then show ?case by simp
next
  case (Cons x ord)
  show ?case
  proof (cases n)
    case 0
    then show ?thesis by simp
  next
    case (Suc n')
    with Cons.prems have "n' < length ord" by simp
    from Cons.IH [OF this, of "Suc j"] Suc show ?thesis by simp
  qed
qed

lemma tcChains_map:
  "tcChains g ord = map (\<lambda>j. tcChain g j (ord ! j)) [0..<length ord]"
  by (rule nth_equalityI) (simp_all add: tcChains_def length_tcChainsFrom nth_tcChainsFrom)

lemma tcStep_Run:
  "tcStep parentToks h tc = Run argv \<Longrightarrow>
   wellFormed tc \<and> argv = [''qdisc'', ''add'', ''dev'', ''eth0''] @ parentToks
                          @ [''handle'', showInt h @ '':''] @ tcKindArgs tc"
  by (cases "Tc.Type tc") (auto simp: tcStep_def wellFormed_def split: if_splits)

lemma length_planSteps:
  "length (planSteps tcs groups)
   = length (globalRules tcs) + 4 + length (concat (map snd groups))"
  by (simp add: planSteps_def globalSteps_def length_globalStepsFrom prioSteps_def
      filterSteps_def length_filterStepsFrom)

lemma planSteps_global:
  "i < length (globalRules tcs) \<Longrightarrow>
   planSteps tcs groups ! i = tcStep (globalParent i) (int i + 1) (globalRules tcs ! i)"
  by (simp add: planSteps_def globalSteps_def nth_append length_globalStepsFrom
      nth_globalStepsFrom)

lemma planSteps_prio:
  "planSteps tcs groups ! (length (globalRules tcs))
   = Run (prioArgv (length (globalRules tcs)) (length (destinationSets tcs)))"
  "planSteps tcs groups ! (length (globalRules tcs) + 1)
   = Run (sfqArgv (length (globalRules tcs)) 1)"
  "planSteps tcs groups ! (length (globalRules tcs) + 2)
   = Run (sfqArgv (length (globalRules tcs)) 2)"
  "planSteps tcs groups ! (length (globalRules tcs) + 3)
   = Run (sfqArgv (length (globalRules tcs)) 3)"
  by (simp_all add: planSteps_def globalSteps_def nth_append length_globalStepsFrom
      prioSteps_def)

lemma planSteps_filter:
  "j < length groups \<Longrightarrow> i < length (snd (groups ! j)) \<Longrightarrow>
   planSteps tcs groups ! (length (globalRules tcs) + 4 + (groupOffset groups j + i))
   = tcStep (filterParent (length (globalRules tcs)) j i
               (int (length (globalRules tcs)) + 4 + int (groupOffset groups j + i)))
       (int (length (globalRules tcs)) + 5 + int (groupOffset groups j + i))
       (snd (groups ! j) ! i)"
  using nth_filterStepsFrom [of j groups i "length (globalRules tcs)" 0
      "int (length (globalRules tcs)) + 4"]
  by (simp add: planSteps_def globalSteps_def nth_append length_globalStepsFrom
      prioSteps_def filterSteps_def algebra_simps)

lemma runSteps_events:
  "runSteps w ns steps t = (res, t') \<Longrightarrow> e \<in> set t' \<Longrightarrow> e \<in> set t \<or> (\<exists>argv. e = Exec ns argv)"
  by (induction w ns steps t rule: runSteps.induct) (auto split: prod.splits option.splits)

text \<open>The three ways a run of the compiler can go once the process id is known.\<close>

lemma SetContainerTcRules_cases:
  assumes pid: "GetPidFromContainerID w (ContainerId req) = Inr pid"
    and run: "SetContainerTcRules w ord req = (res, tr)"
  obtains
    (flush_failed) err where "res = Some (WithStack err)" "tr = [Exec (GetNsPath w pid) flushArgv]"
  | (step_failed) e where
      "runSteps w (GetNsPath w pid)
         (planSteps (Tcs req) (rangeMap ord (snd (splitTcs (Tcs req) [] []))))
         [Exec (GetNsPath w pid) flushArgv] = (Some e, tr)"
      "res = Some (WithStack e)"
  | (applied) t where
      "runSteps w (GetNsPath w pid)
         (planSteps (Tcs req) (rangeMap ord (snd (splitTcs (Tcs req) [] []))))
         [Exec (GetNsPath w pid) flushArgv] = (None, t)"
      "tr = t @ [SetIptablesChains (GetNsPath w pid) (tcChains (length (globalRules (Tcs req))) ord)]"
      "res = map_option WithStack
               (setIptablesChains w t (GetNsPath w pid)
                  (tcChains (length (globalRules (Tcs req))) ord))"
proof (cases "fst (flush w (buildTcClient (GetNsPath w pid)) [])")
  case (Some err)
  from SetContainerTcRules_flush_error [OF pid Some, of ord] run flush_failed show ?thesis by simp
next
  case None
  let ?rs = "runSteps w (GetNsPath w pid)
         (planSteps (Tcs req) (rangeMap ord (snd (splitTcs (Tcs req) [] []))))
         [Exec (GetNsPath w pid) flushArgv]"
  obtain r t where rs: "?rs = (r, t)" by force
  show ?thesis
  proof (cases r)
    case (Some e)
    with SetContainerTcRules_plan [OF pid None, of ord] run rs step_failed show ?thesis by simp
  next
    case n: None
    with SetContainerTcRules_plan [OF pid None, of ord] run rs applied show ?thesis by simp
  qed
qed

lemma trace_step:
  assumes pid: "GetPidFromContainerID w (ContainerId req) = Inr pid"
    and run: "SetContainerTcRules w ord req = (res, tr)"
    and i: "i < length (planSteps (Tcs req) (rangeMap ord (snd (splitTcs (Tcs req) [] []))))"
    and len: "Suc i < length tr"
  shows "\<exists>argv. planSteps (Tcs req) (rangeMap ord (snd (splitTcs (Tcs req) [] []))) ! i = Run argv
           \<and> tr ! Suc i = Exec (GetNsPath w pid) argv"
  using pid run
proof (cases rule: SetContainerTcRules_cases)
  case (flush_failed err)
  with len show ?thesis by simp
next
  case (step_failed e)
  from runSteps_nth [OF step_failed(1) i] len show ?thesis by simp
next
  case (applied t)
  from runSteps_length_ok [OF applied(1)] i have "length [Exec (GetNsPath w pid) flushArgv] + i < length t"
    by simp
  from runSteps_nth [OF applied(1) i this] applied(2) this show ?thesis
    by (simp add: nth_append)
qed

lemma trace_applied:
  assumes pid: "GetPidFromContainerID w (ContainerId req) = Inr pid"
    and run: "SetContainerTcRules w ord req = (None, tr)"
  shows "length tr = length (planSteps (Tcs req) (rangeMap ord (snd (splitTcs (Tcs req) [] [])))) + 2
    \<and> last tr = SetIptablesChains (GetNsPath w pid) (tcChains (length (globalRules (Tcs req))) ord)"
  using pid run
proof (cases rule: SetContainerTcRules_cases)
  case (flush_failed err)
  then show ?thesis by simp
next
  case (step_failed e)
  then show ?thesis by simp
next
  case (applied t)
  from runSteps_length_ok [OF applied(1)] applied(2) show ?thesis by simp
qed

lemma trace_chains:
  assumes pid: "GetPidFromContainerID w (ContainerId req) = Inr pid"
    and run: "SetContainerTcRules w ord req = (res, tr)"
    and ev: "SetIptablesChains ns chs \<in> set tr"
  shows "chs = tcChains (length (globalRules (Tcs req))) ord"
  using pid run
proof (cases rule: SetContainerTcRules_cases)
  case (flush_failed err)
  with ev show ?thesis by simp
next
  case (step_failed e)
  from runSteps_events [OF step_failed(1) ev] show ?thesis by auto
next
  case (applied t)
  from runSteps_events [OF applied(1), of "SetIptablesChains ns chs"] ev applied(2)
  show ?thesis by auto
qed

lemma trace_failure:
  assumes pid: "GetPidFromContainerID w (ContainerId req) = Inr pid"
    and run: "SetContainerTcRules w ord req = (res, tr)"
    and p: "0 < p" "p < length tr"
    and ev: "tr ! p = Exec ns argv"
    and co: "CombinedOutput w (take p tr) ns argv = (out, Some e)"
  shows "length tr = Suc p \<and> res = Some (WithStack (encodeOutputToError out e))"
  using pid run
proof (cases rule: SetContainerTcRules_cases)
  case (flush_failed err)
  with p show ?thesis by simp
next
  case (step_failed e')
  from p have "length [Exec (GetNsPath w pid) flushArgv] \<le> p" by simp
  from runSteps_failure [OF step_failed(1) this p(2) ev co] step_failed(2) show ?thesis by simp
next
  case (applied t)
  from applied(2) ev p have pt: "p < length t"
    by (cases "p = length t") (simp_all add: nth_append)
  with applied(2) ev co have ev': "t ! p = Exec ns argv"
    and co': "CombinedOutput w (take p t) ns argv = (out, Some e)"
    by (simp_all add: nth_append)
  from p have "length [Exec (GetNsPath w pid) flushArgv] \<le> p" by simp
  from runSteps_failure [OF applied(1) this pt ev' co'] show ?thesis by simp
qed

lemma groups_of_order:
  assumes "set ord = set (destinationSets tcs)"
  shows "rangeMap ord (snd (splitTcs tcs [] [])) = groupsIn ord tcs"
  using assms by (intro rangeMap_filterTc) simp

lemma length_order:
  assumes "distinct ord" "set ord = set (destinationSets tcs)"
  shows "length ord = length (destinationSets tcs)"
proof -
  have "length ord = card (set ord)" using assms(1) by (simp add: distinct_card)
  also have "\<dots> = card (set (destinationSets tcs))" using assms(2) by simp
  also have "\<dots> = length (destinationSets tcs)"
    by (simp add: distinct_card destinationSets_def firstSeen_distinct)
  finally show ?thesis .
qed

lemma trace_filter_step:
  assumes pid: "GetPidFromContainerID w (ContainerId req) = Inr pid"
    and run: "SetContainerTcRules w ord req = (res, tr)"
    and ord: "set ord = set (destinationSets (Tcs req))"
    and g: "g = length (globalRules (Tcs req))"
    and j: "j < length ord" and i: "i < length (groupRules (Tcs req) (ord ! j))"
    and m: "m = groupOffset (groupsIn ord (Tcs req)) j + i"
    and len: "g + 5 + m < length tr"
  shows "wellFormed (groupRules (Tcs req) (ord ! j) ! i)
    \<and> tr ! (g + 5 + m) =
        Exec (GetNsPath w pid)
          ([''qdisc'', ''add'', ''dev'', ''eth0'', ''parent'',
            (if i = 0 then showInt (int g + 1) @ '':'' @ showInt (int j + 4)
             else showInt (int g + 4 + int m) @ '':''),
            ''handle'', showInt (filterHandle g m) @ '':'']
           @ tcKindArgs (groupRules (Tcs req) (ord ! j) ! i))"
proof -
  let ?groups = "groupsIn ord (Tcs req)"
  let ?plan = "planSteps (Tcs req) (rangeMap ord (snd (splitTcs (Tcs req) [] [])))"
  have plan: "?plan = planSteps (Tcs req) ?groups" by (simp add: groups_of_order [OF ord])
  from j have j': "j < length ?groups" by (simp add: groupsIn_def)
  from j i have i': "i < length (snd (?groups ! j))" by (simp add: groupsIn_def)
  from j have grp: "snd (?groups ! j) = groupRules (Tcs req) (ord ! j)" by (simp add: groupsIn_def)
  from groupOffset_bound [OF j' i'] m g have "g + 4 + m < length ?plan"
    by (simp add: plan length_planSteps)
  moreover from len have "Suc (g + 4 + m) < length tr" by simp
  ultimately obtain argv where a: "?plan ! (g + 4 + m) = Run argv"
    and b: "tr ! Suc (g + 4 + m) = Exec (GetNsPath w pid) argv"
    using trace_step [OF pid run] by blast
  from a planSteps_filter [OF j' i', of "Tcs req"] m g grp
  have "tcStep (filterParent g j i (int g + 4 + int m)) (int g + 5 + int m)
          (groupRules (Tcs req) (ord ! j) ! i) = Run argv"
    by (simp add: plan)
  from tcStep_Run [OF this] have w: "wellFormed (groupRules (Tcs req) (ord ! j) ! i)"
    and argv: "argv = [''qdisc'', ''add'', ''dev'', ''eth0''] @ filterParent g j i (int g + 4 + int m)
        @ [''handle'', showInt (int g + 5 + int m) @ '':'']
        @ tcKindArgs (groupRules (Tcs req) (ord ! j) ! i)" by simp_all
  have s: "Suc (g + 4 + m) = g + 5 + m" by simp
  from b have "tr ! (g + 5 + m) = Exec (GetNsPath w pid) argv" unfolding s .
  with w argv show ?thesis
    by (cases "i = 0") (simp_all add: filterParent_def filterHandle_def)
qed

section \<open>Sample runs\<close>

lemmas run_eval = SetContainerTcRules_def flush_def runTc_def buildTcClient_def
  addTc_def addNetem_def addTbf_def addPrio_def addPrioSfq.simps Let_def
  goLookup_def rangeMap_def RULE_NOT_EXIST_def encodeOutputToError_def

lemma sample_run:
  "SetContainerTcRules okWorld [''A'', ''B''] sampleRequest =
     (None,
      [Exec ''/proc/1/ns/net'' [''qdisc'', ''del'', ''dev'', ''eth0'', ''root''],
       Exec ''/proc/1/ns/net'' [''qdisc'', ''add'', ''dev'', ''eth0'', ''root'', ''handle'', ''1:'', ''netem'', ''delay'', ''50000''],
       Exec ''/proc/1/ns/net'' [''qdisc'', ''add'', ''dev'', ''eth0'', ''parent'', ''1:'', ''handle'', ''2:'', ''netem'', ''delay'', ''100000''],
       Exec ''/proc/1/ns/net'' [''qdisc'', ''add'', ''dev'', ''eth0'', ''parent'', ''2:'', ''handle'', ''3:'', ''prio'', ''bands'', ''5'',
          ''priomap'', ''1'', ''2'', ''2'', ''2'', ''1'', ''2'', ''0'', ''0'', ''1'', ''1'', ''1'', ''1'', ''1'', ''1'', ''1'', ''1''],
       Exec ''/proc/1/ns/net'' [''qdisc'', ''add'', ''dev'', ''eth0'', ''parent'', ''3:1'', ''handle'', ''4:'', ''sfq''],
       Exec ''/proc/1/ns/net'' [''qdisc'', ''add'', ''dev'', ''eth0'', ''parent'', ''3:2'', ''handle'', ''5:'', ''sfq''],
       Exec ''/proc/1/ns/net'' [''qdisc'', ''add'', ''dev'', ''eth0'', ''parent'', ''3:3'', ''handle'', ''6:'', ''sfq''],
       Exec ''/proc/1/ns/net'' [''qdisc'', ''add'', ''dev'', ''eth0'', ''parent'', ''3:4'', ''handle'', ''7:'', ''netem'', ''delay'', ''50000''],
       Exec ''/proc/1/ns/net'' [''qdisc'', ''add'', ''dev'', ''eth0'', ''parent'', ''3:5'', ''handle'', ''8:'', ''netem'', ''delay'', ''100000''],
       SetIptablesChains ''/proc/1/ns/net''
         [\<lparr>Name = ''TC-TABLES-0'', Direction = Chain_OUTPUT, Ipsets = [''A''], Target = ''CLASSIFY --set-class 3:4''\<rparr>,
          \<lparr>Name = ''TC-TABLES-1'', Direction = Chain_OUTPUT, Ipsets = [''B''], Target = ''CLASSIFY --set-class 3:5''\<rparr>]])"
  by (simp add: run_eval okWorld_def sampleRequest_def netemTc_def zeroNetem_def
      convertNetemToArgs_Join netemTokens_def show_eval)

lemma sample_pid: "GetPidFromContainerID okWorld (ContainerId sampleRequest) = Inr 1"
  by (simp add: okWorld_def)

lemma sample_ns: "GetNsPath okWorld 1 = ''/proc/1/ns/net''"
  by (simp add: okWorld_def)

lemma sample_global:
  "globalRules (Tcs sampleRequest) = [netemTc 50000 [], netemTc 100000 []]"
  by (simp add: globalRules_def sampleRequest_def netemTc_def)

lemma sample_sets: "destinationSets (Tcs sampleRequest) = [''A'', ''B'']"
  by (simp add: destinationSets_def sampleRequest_def netemTc_def)

lemma sample_kind:
  "tcKindArgs (netemTc 50000 s) = [''netem'', ''delay'', ''50000'']"
  "tcKindArgs (netemTc 100000 s) = [''netem'', ''delay'', ''100000'']"
  by (simp_all add: tcKindArgs_def netemTc_def zeroNetem_def Split_convertNetemToArgs
      netemTokens_def show_eval)

lemma failing_run:
  "SetContainerTcRules (failAt 3 ''RTNETLINK answers: File exists'') [''A'', ''B''] sampleRequest =
     (Some (WithStack (encodeOutputToError ''RTNETLINK answers: File exists'' (ExitError ''exit status 2''))),
      [Exec ''/proc/1/ns/net'' [''qdisc'', ''del'', ''dev'', ''eth0'', ''root''],
       Exec ''/proc/1/ns/net'' [''qdisc'', ''add'', ''dev'', ''eth0'', ''root'', ''handle'', ''1:'', ''netem'', ''delay'', ''50000''],
       Exec ''/proc/1/ns/net'' [''qdisc'', ''add'', ''dev'', ''eth0'', ''parent'', ''1:'', ''handle'', ''2:'', ''netem'', ''delay'', ''100000''],
       Exec ''/proc/1/ns/net'' [''qdisc'', ''add'', ''dev'', ''eth0'', ''parent'', ''2:'', ''handle'', ''3:'', ''prio'', ''bands'', ''5'',
          ''priomap'', ''1'', ''2'', ''2'', ''2'', ''1'', ''2'', ''0'', ''0'', ''1'', ''1'', ''1'', ''1'', ''1'', ''1'', ''1'', ''1'']])"
  by (simp add: run_eval failAt_def sampleRequest_def netemTc_def zeroNetem_def
      convertNetemToArgs_Join netemTokens_def show_eval)

lemma failing_pid:
  "GetPidFromContainerID (failAt n out) (ContainerId sampleRequest) = Inr 1"
  by (simp add: failAt_def)

lemma sample2_run:
  "SetContainerTcRules okWorld [''A'', ''B''] sampleRequest2 =
     (None,
      [Exec ''/proc/1/ns/net'' [''qdisc'', ''del'', ''dev'', ''eth0'', ''root''],
       Exec ''/proc/1/ns/net'' [''qdisc'', ''add'', ''dev'', ''eth0'', ''root'', ''handle'', ''1:'', ''netem'', ''delay'', ''50000''],
       Exec ''/proc/1/ns/net'' [''qdisc'', ''add'', ''dev'', ''eth0'', ''parent'', ''1:'', ''handle'', ''2:'', ''prio'', ''bands'', ''5'',
          ''priomap'', ''1'', ''2'', ''2'', ''2'', ''1'', ''2'', ''0'', ''0'', ''1'', ''1'', ''1'', ''1'', ''1'', ''1'', ''1'', ''1''],
       Exec ''/proc/1/ns/net'' [''qdisc'', ''add'', ''dev'', ''eth0'', ''parent'', ''2:1'', ''handle'', ''3:'', ''sfq''],
       Exec ''/proc/1/ns/net'' [''qdisc'', ''add'', ''dev'', ''eth0'', ''parent'', ''2:2'', ''handle'', ''4:'', ''sfq''],
       Exec ''/proc/1/ns/net'' [''qdisc'', ''add'', ''dev'', ''eth0'', ''parent'', ''2:3'', ''handle'', ''5:'', ''sfq''],
       Exec ''/proc/1/ns/net'' [''qdisc'', ''add'', ''dev'', ''eth0'', ''parent'', ''2:4'', ''handle'', ''6:'', ''netem'', ''delay'', ''100''],
       Exec ''/proc/1/ns/net'' [''qdisc'', ''add'', ''dev'', ''eth0'', ''parent'', ''6:'', ''handle'', ''7:'', ''netem'', ''delay'', ''300''],
       Exec ''/proc/1/ns/net'' [''qdisc'', ''add'', ''dev'', ''eth0'', ''parent'', ''2:5'', ''handle'', ''8:'', ''netem'', ''delay'', ''200''],
       SetIptablesChains ''/proc/1/ns/net''
         [\<lparr>Name = ''TC-TABLES-0'', Direction = Chain_OUTPUT, Ipsets = [''A''], Target = ''CLASSIFY --set-class 2:4''\<rparr>,
          \<lparr>Name = ''TC-TABLES-1'', Direction = Chain_OUTPUT, Ipsets = [''B''], Target = ''CLASSIFY --set-class 2:5''\<rparr>]])"
  by (simp add: run_eval okWorld_def sampleRequest2_def netemTc_def zeroNetem_def
      convertNetemToArgs_Join netemTokens_def show_eval)

lemma sample2_pid: "GetPidFromContainerID okWorld (ContainerId sampleRequest2) = Inr 1"
  by (simp add: okWorld_def)

lemma sample2_global: "globalRules (Tcs sampleRequest2) = [netemTc 50000 []]"
  by (simp add: globalRules_def sampleRequest2_def netemTc_def)

lemma sample2_sets: "destinationSets (Tcs sampleRequest2) = [''A'', ''B'']"
  by (simp add: destinationSets_def sampleRequest2_def netemTc_def)

lemma sample2_groups:
  "groupRules (Tcs sampleRequest2) ''A'' = [netemTc 100 ''A'', netemTc 300 ''A'']"
  "groupRules (Tcs sampleRequest2) ''B'' = [netemTc 200 ''B'']"
  by (simp_all add: groupRules_def sampleRequest2_def netemTc_def)

lemma sample2_offsets:
  "groupOffset (groupsIn [''A'', ''B''] (Tcs sampleRequest2)) 0 = 0"
  "groupOffset (groupsIn [''A'', ''B''] (Tcs sampleRequest2)) 1 = 2"
  by (simp_all add: groupOffset_def groupsIn_def sample2_groups)

lemma sample_kind2:
  "tcKindArgs (netemTc 100 s) = [''netem'', ''delay'', ''100'']"
  "tcKindArgs (netemTc 200 s) = [''netem'', ''delay'', ''200'']"
  "tcKindArgs (netemTc 300 s) = [''netem'', ''delay'', ''300'']"
  by (simp_all add: tcKindArgs_def netemTc_def zeroNetem_def Split_convertNetemToArgs
      netemTokens_def show_eval)

lemma sample_run_BA:
  "SetContainerTcRules okWorld [''B'', ''A''] sampleRequest =
     (None,
      [Exec ''/proc/1/ns/net'' [''qdisc'', ''del'', ''dev'', ''eth0'', ''root''],
       Exec ''/proc/1/ns/net'' [''qdisc'', ''add'', ''dev'', ''eth0'', ''root'', ''handle'', ''1:'', ''netem'', ''delay'', ''50000''],
       Exec ''/proc/1/ns/net'' [''qdisc'', ''add'', ''dev'', ''eth0'', ''parent'', ''1:'', ''handle'', ''2:'', ''netem'', ''delay'', ''100000''],
       Exec ''/proc/1/ns/net'' [''qdisc'', ''add'', ''dev'', ''eth0'', ''parent'', ''2:'', ''handle'', ''3:'', ''prio'', ''bands'', ''5'',
          ''priomap'', ''1'', ''2'', ''2'', ''2'', ''1'', ''2'', ''0'', ''0'', ''1'', ''1'', ''1'', ''1'', ''1'', ''1'', ''1'', ''1''],
       Exec ''/proc/1/ns/net'' [''qdisc'', ''add'', ''dev'', ''eth0'', ''parent'', ''3:1'', ''handle'', ''4:'', ''sfq''],
       Exec ''/proc/1/ns/net'' [''qdisc'', ''add'', ''dev'', ''eth0'', ''parent'', ''3:2'', ''handle'', ''5:'', ''sfq''],
       Exec ''/proc/1/ns/net'' [''qdisc'', ''add'', ''dev'', ''eth0'', ''parent'', ''3:3'', ''handle'', ''6:'', ''sfq''],
       Exec ''/proc/1/ns/net'' [''qdisc'', ''add'', ''dev'', ''eth0'', ''parent'', ''3:4'', ''handle'', ''7:'', ''netem'', ''delay'', ''100000''],
       Exec ''/proc/1/ns/net'' [''qdisc'', ''add'', ''dev'', ''eth0'', ''parent'', ''3:5'', ''handle'', ''8:'', ''netem'', ''delay'', ''50000''],
       SetIptablesChains ''/proc/1/ns/net''
         [\<lparr>Name = ''TC-TABLES-0'', Direction = Chain_OUTPUT, Ipsets = [''B''], Target = ''CLASSIFY --set-class 3:4''\<rparr>,
          \<lparr>Name = ''TC-TABLES-1'', Direction = Chain_OUTPUT, Ipsets = [''A''], Target = ''CLASSIFY --set-class 3:5''\<rparr>]])"
  by (simp add: run_eval okWorld_def sampleRequest_def netemTc_def zeroNetem_def
      convertNetemToArgs_Join netemTokens_def show_eval)

section \<open>Where the sfq leaves are\<close>

lemma sfq_chars: "CHR ''s'' \<notin> numChars" "CHR ''q'' \<notin> numChars"
  by (simp_all add: numChars_def)

lemma showInt_not_sfq: "showInt i \<noteq> ''sfq''"
  using showInt_chars [of i] sfq_chars by auto

lemma showFloat_not_sfq: "showFloat x \<noteq> ''sfq''"
  using showFloat_chars [of x] sfq_chars by auto

lemma colon_not_sfq: "a @ CHR '':'' # b \<noteq> ''sfq''"
proof
  assume eq: "a @ CHR '':'' # b = ''sfq''"
  have "CHR '':'' \<in> set (a @ CHR '':'' # b)" by simp
  then have "CHR '':'' \<in> set ''sfq''" unfolding eq .
  then show False by simp
qed

lemma netemTokens_no_sfq: "''sfq'' \<notin> set (netemTokens n)"
  using showInt_not_sfq [symmetric] showFloat_not_sfq [symmetric]
  by (simp add: netemTokens_def)

lemma tbfTokens_no_sfq: "''sfq'' \<notin> set (tbfTokens t)"
  using showInt_not_sfq [symmetric]
  by (simp add: tbfTokens_def)

lemma tcKindArgs_no_sfq: "''sfq'' \<notin> set (tcKindArgs tc)"
proof (cases "Tc.Type tc")
  case Tc_BANDWIDTH
  show ?thesis
  proof (cases "Tbf tc")
    case None
    with Tc_BANDWIDTH show ?thesis by (simp add: tcKindArgs_def)
  next
    case (Some tbf)
    with Tc_BANDWIDTH tbfTokens_no_sfq [of tbf] show ?thesis
      by (simp add: tcKindArgs_def Split_convertTbfToArgs)
  qed
next
  case Tc_NETEM
  show ?thesis
  proof (cases "Netem tc")
    case None
    with Tc_NETEM show ?thesis by (simp add: tcKindArgs_def)
  next
    case (Some netem)
    with Tc_NETEM netemTokens_no_sfq [of netem] show ?thesis
      by (simp add: tcKindArgs_def Split_convertNetemToArgs)
  qed
next
  case Tc_Other
  then show ?thesis by (simp add: tcKindArgs_def)
qed

lemma tcStep_no_sfq:
  assumes "tcStep parentToks h tc = Run argv" and "''sfq'' \<notin> set parentToks"
  shows "''sfq'' \<notin> set argv"
proof -
  from tcStep_Run [OF assms(1)]
  have "argv = [''qdisc'', ''add'', ''dev'', ''eth0''] @ parentToks
                          @ [''handle'', showInt h @ '':''] @ tcKindArgs tc" by simp
  moreover have "showInt h @ '':'' \<noteq> ''sfq''" using colon_not_sfq [of "showInt h" "[]"] by simp
  ultimately show ?thesis using assms(2) tcKindArgs_no_sfq [of tc] by auto
qed

lemma globalParent_no_sfq: "''sfq'' \<notin> set (globalParent i)"
  using colon_not_sfq [of "showInt (int i)" "[]"] by (auto simp: globalParent_def)

lemma filterParent_no_sfq: "''sfq'' \<notin> set (filterParent g j i h)"
  using colon_not_sfq [of "showInt h" "[]"]
    colon_not_sfq [of "showInt (int g + 1)" "showInt (int j + 4)"]
  by (auto simp: filterParent_def)

lemma globalStepsFrom_no_sfq:
  "Run argv \<in> set (globalStepsFrom i tcs) \<Longrightarrow> ''sfq'' \<notin> set argv"
proof (induction tcs arbitrary: i)
  case Nil
  then show ?case by simp
next
  case (Cons tc tcs)
  from Cons.prems
  have "tcStep (globalParent i) (int i + 1) tc = Run argv
      \<or> Run argv \<in> set (globalStepsFrom (Suc i) tcs)" by auto
  then show ?case
  proof
    assume "tcStep (globalParent i) (int i + 1) tc = Run argv"
    then show ?thesis using globalParent_no_sfq by (rule tcStep_no_sfq)
  next
    assume "Run argv \<in> set (globalStepsFrom (Suc i) tcs)"
    then show ?thesis by (rule Cons.IH)
  qed
qed

lemma groupStepsFrom_no_sfq:
  "Run argv \<in> set (groupStepsFrom g j i h tcs) \<Longrightarrow> ''sfq'' \<notin> set argv"
proof (induction tcs arbitrary: i h)
  case Nil
  then show ?case by simp
next
  case (Cons tc tcs)
  from Cons.prems
  have "tcStep (filterParent g j i h) (h + 1) tc = Run argv
      \<or> Run argv \<in> set (groupStepsFrom g j (Suc i) (h + 1) tcs)" by auto
  then show ?case
  proof
    assume "tcStep (filterParent g j i h) (h + 1) tc = Run argv"
    then show ?thesis using filterParent_no_sfq by (rule tcStep_no_sfq)
  next
    assume "Run argv \<in> set (groupStepsFrom g j (Suc i) (h + 1) tcs)"
    then show ?thesis by (rule Cons.IH)
  qed
qed

lemma prioArgv_no_sfq: "''sfq'' \<notin> set (prioArgv g k)"
proof -
  have "showInt (int g + 1) @ '':'' \<noteq> ''sfq''"
    using colon_not_sfq [of "showInt (int g + 1)" "[]"] by simp
  with showInt_not_sfq [of "3 + int k"] globalParent_no_sfq [of g] show ?thesis
    by (auto simp: prioArgv_def)
qed

lemma filterStepsFrom_no_sfq:
  "Run argv \<in> set (filterStepsFrom g j h groups) \<Longrightarrow> ''sfq'' \<notin> set argv"
proof (induction groups arbitrary: j h)
  case Nil
  then show ?case by simp
next
  case (Cons grp groups)
  obtain ipset tcs where grp: "grp = (ipset, tcs)" by (cases grp)
  from Cons.prems grp
  have "Run argv \<in> set (groupStepsFrom g j 0 h tcs)
      \<or> Run argv \<in> set (filterStepsFrom g (Suc j) (h + int (length tcs)) groups)"
    by simp
  then show ?case
  proof
    assume "Run argv \<in> set (groupStepsFrom g j 0 h tcs)"
    then show ?thesis by (rule groupStepsFrom_no_sfq)
  next
    assume "Run argv \<in> set (filterStepsFrom g (Suc j) (h + int (length tcs)) groups)"
    then show ?thesis by (rule Cons.IH)
  qed
qed

lemma flushArgv_no_sfq: "''sfq'' \<notin> set flushArgv"
  by (simp add: flushArgv_def)

lemma planSteps_sfq:
  assumes n: "n < length (planSteps tcs groups)" and r: "planSteps tcs groups ! n = Run argv"
    and s: "''sfq'' \<in> set argv"
  shows "n = length (globalRules tcs) + 1 \<or> n = length (globalRules tcs) + 2
      \<or> n = length (globalRules tcs) + 3"
proof -
  let ?g = "length (globalRules tcs)"
  let ?A = "globalSteps (globalRules tcs)"
  let ?B = "prioSteps ?g (length (destinationSets tcs))"
  let ?C = "filterSteps ?g groups"
  have lA: "length ?A = ?g" by (simp add: globalSteps_def length_globalStepsFrom)
  have lB: "length ?B = 4" by (simp add: prioSteps_def)
  have lC: "length ?C = length (planSteps tcs groups) - (?g + 4)"
    by (simp add: planSteps_def lA lB)
  have plan: "planSteps tcs groups = ?A @ ?B @ ?C" by (simp add: planSteps_def)
  have notA: "\<not> n < ?g"
  proof
    assume a: "n < ?g"
    then have "planSteps tcs groups ! n = ?A ! n" by (simp add: plan nth_append lA)
    with r a lA have "Run argv \<in> set ?A" by (metis nth_mem)
    then have "''sfq'' \<notin> set argv" by (simp add: globalSteps_def globalStepsFrom_no_sfq)
    with s show False by simp
  qed
  have notB: "n \<noteq> ?g"
  proof
    assume "n = ?g"
    with r planSteps_prio(1) [of tcs groups]
    have "argv = prioArgv ?g (length (destinationSets tcs))" by simp
    with s prioArgv_no_sfq show False by simp
  qed
  have notD: "\<not> ?g + 4 \<le> n"
  proof
    assume d: "?g + 4 \<le> n"
    then have "planSteps tcs groups ! n = (?B @ ?C) ! (n - ?g)"
      by (simp add: plan nth_append lA)
    also have "\<dots> = ?C ! (n - ?g - 4)"
    proof -
      from d have "\<not> n - ?g < length ?B" unfolding lB by arith
      then show ?thesis unfolding lB [symmetric] by (simp only: nth_append if_False)
    qed
    finally have e: "?C ! (n - ?g - 4) = Run argv" using r by simp
    from d n have "n - ?g - 4 < length ?C" by (simp add: lC)
    with e have "Run argv \<in> set ?C" by (metis nth_mem)
    then have "''sfq'' \<notin> set argv" by (simp add: filterSteps_def filterStepsFrom_no_sfq)
    with s show False by simp
  qed
  from notA notB notD show ?thesis by arith
qed

lemma trace_exec:
  assumes pid: "GetPidFromContainerID w (ContainerId req) = Inr pid"
    and run: "SetContainerTcRules w ord req = (res, tr)"
    and p: "p < length tr" and ev: "tr ! p = Exec ns argv"
  shows "(p = 0 \<and> argv = flushArgv)
     \<or> (0 < p \<and> p - 1 < length (planSteps (Tcs req) (rangeMap ord (snd (splitTcs (Tcs req) [] []))))
         \<and> planSteps (Tcs req) (rangeMap ord (snd (splitTcs (Tcs req) [] []))) ! (p - 1) = Run argv)"
proof (cases p)
  case 0
  from pid run have "tr ! 0 = Exec (GetNsPath w pid) flushArgv"
  proof (cases rule: SetContainerTcRules_cases)
    case (flush_failed err)
    then show ?thesis by simp
  next
    case (step_failed e)
    from runSteps_extends [OF step_failed(1)] show ?thesis by auto
  next
    case (applied t)
    from runSteps_extends [OF applied(1)] applied(2) show ?thesis by auto
  qed
  with 0 ev show ?thesis by simp
next
  case (Suc n)
  let ?plan = "planSteps (Tcs req) (rangeMap ord (snd (splitTcs (Tcs req) [] [])))"
  from pid run have "n < length ?plan"
  proof (cases rule: SetContainerTcRules_cases)
    case (flush_failed err)
    with p Suc show ?thesis by simp
  next
    case (step_failed e)
    from runSteps_length_le [OF step_failed(1)] p Suc show ?thesis by simp
  next
    case (applied t)
    from runSteps_length_ok [OF applied(1)] have lt: "length t = Suc (length ?plan)" by simp
    show ?thesis
    proof (cases "p = length t")
      case True
      with applied(2) ev show ?thesis by (simp add: nth_append)
    next
      case False
      with applied(2) p lt Suc show ?thesis by simp
    qed
  qed
  moreover from trace_step [OF pid run this] p Suc ev
  have "?plan ! n = Run argv" by auto
  ultimately show ?thesis using Suc by simp
qed

section \<open>A run goes on as long as its operations succeed\<close>

lemma answered_prefix: "p < length t \<Longrightarrow> answered w (t @ s) p = answered w t p"
proof -
  assume p: "p < length t"
  then have "take p (t @ s) = take p t" by simp
  with p show ?thesis by (simp add: answered_def nth_append split: event.splits)
qed

lemma answered_here:
  "answered w ((t @ [Exec ns argv]) @ new) (length t) = (snd (CombinedOutput w t ns argv) = None)"
  by (simp add: answered_def nth_append)

lemma runSteps_first:
  "runSteps w ns (Run argv # steps) t = (res, t') \<Longrightarrow> \<exists>new. t' = (t @ [Exec ns argv]) @ new"
proof -
  assume a: "runSteps w ns (Run argv # steps) t = (res, t')"
  obtain out r where co: "CombinedOutput w t ns argv = (out, r)" by force
  show ?thesis
  proof (cases r)
    case None
    with a co have "runSteps w ns steps (t @ [Exec ns argv]) = (res, t')" by simp
    then show ?thesis by (rule runSteps_extends)
  next
    case (Some e)
    with a co show ?thesis by simp
  qed
qed

lemma runSteps_next:
  assumes a: "runSteps w ns (Run argv # steps) t = (res, t')"
    and ok: "answered w t' (length t)"
  shows "runSteps w ns steps (t @ [Exec ns argv]) = (res, t')"
proof -
  from runSteps_first [OF a] obtain new where t': "t' = (t @ [Exec ns argv]) @ new" ..
  from ok have "snd (CombinedOutput w t ns argv) = None" unfolding t' answered_here .
  with a show ?thesis by (cases "CombinedOutput w t ns argv") simp
qed

lemma runSteps_progress:
  "runSteps w ns steps t = (res, t') \<Longrightarrow> n < length steps \<Longrightarrow> \<forall>j\<le>n. isRun (steps ! j)
   \<Longrightarrow> \<forall>p. length t \<le> p \<and> p < length t + n \<and> p < length t' \<longrightarrow> answered w t' p
   \<Longrightarrow> length t + n < length t'"
proof (induction steps arbitrary: t n)
  case Nil
  then show ?case by simp
next
  case (Cons s steps)
  from Cons.prems(3) have "isRun s" by auto
  then obtain argv where s: "s = Run argv" by (cases s) simp_all
  from runSteps_first [OF Cons.prems(1) [unfolded s]]
  obtain new where t': "t' = (t @ [Exec ns argv]) @ new" ..
  show ?case
  proof (cases n)
    case 0
    with t' show ?thesis by simp
  next
    case (Suc n')
    with t' Cons.prems(4) have "answered w t' (length t)" by simp
    from runSteps_next [OF Cons.prems(1) [unfolded s] this]
    have rs: "runSteps w ns steps (t @ [Exec ns argv]) = (res, t')" .
    from Cons.prems(2) Suc have n': "n' < length steps" by simp
    from Cons.prems(3) Suc have r: "\<forall>j\<le>n'. isRun (steps ! j)" by auto
    from Cons.prems(4) Suc
    have a: "\<forall>p. length (t @ [Exec ns argv]) \<le> p \<and> p < length (t @ [Exec ns argv]) + n' \<and> p < length t'
        \<longrightarrow> answered w t' p" by simp
    from Cons.IH [OF rs n' r a] Suc show ?thesis by simp
  qed
qed

lemma runSteps_abort:
  "runSteps w ns steps t = (res, t') \<Longrightarrow> n < length steps \<Longrightarrow> steps ! n = Abort err
   \<Longrightarrow> \<forall>j<n. isRun (steps ! j)
   \<Longrightarrow> \<forall>p. length t \<le> p \<and> p < length t + n \<and> p < length t' \<longrightarrow> answered w t' p
   \<Longrightarrow> res = Some err \<and> length t' = length t + n"
proof (induction steps arbitrary: t n)
  case Nil
  then show ?case by simp
next
  case (Cons s steps)
  show ?case
  proof (cases n)
    case 0
    with Cons.prems show ?thesis by simp
  next
    case (Suc n')
    with Cons.prems(4) have "isRun s" by auto
    then obtain argv where s: "s = Run argv" by (cases s) simp_all
    from runSteps_first [OF Cons.prems(1) [unfolded s]]
    obtain new where t': "t' = (t @ [Exec ns argv]) @ new" ..
    with Suc Cons.prems(5) have "answered w t' (length t)" by simp
    from runSteps_next [OF Cons.prems(1) [unfolded s] this]
    have rs: "runSteps w ns steps (t @ [Exec ns argv]) = (res, t')" .
    from Cons.prems(2) Suc have n': "n' < length steps" by simp
    from Cons.prems(3) Suc have ab: "steps ! n' = Abort err" by simp
    from Cons.prems(4) Suc have r: "\<forall>j<n'. isRun (steps ! j)" by auto
    from Cons.prems(5) Suc
    have a: "\<forall>p. length (t @ [Exec ns argv]) \<le> p \<and> p < length (t @ [Exec ns argv]) + n' \<and> p < length t'
        \<longrightarrow> answered w t' p" by simp
    from Cons.IH [OF rs n' ab r a] Suc show ?thesis by simp
  qed
qed

lemma runSteps_complete:
  "runSteps w ns steps t = (res, t') \<Longrightarrow> \<forall>j<length steps. isRun (steps ! j)
   \<Longrightarrow> \<forall>p. length t \<le> p \<and> p < length t' \<longrightarrow> answered w t' p
   \<Longrightarrow> res = None"
proof (induction steps arbitrary: t)
  case Nil
  then show ?case by simp
next
  case (Cons s steps)
  from Cons.prems(2) have "isRun s" by auto
  then obtain argv where s: "s = Run argv" by (cases s) simp_all
  from runSteps_first [OF Cons.prems(1) [unfolded s]]
  obtain new where t': "t' = (t @ [Exec ns argv]) @ new" ..
  with Cons.prems(3) have "answered w t' (length t)" by simp
  from runSteps_next [OF Cons.prems(1) [unfolded s] this]
  have rs: "runSteps w ns steps (t @ [Exec ns argv]) = (res, t')" .
  from Cons.prems(2) have r: "\<forall>j<length steps. isRun (steps ! j)" by auto
  from Cons.prems(3)
  have a: "\<forall>p. length (t @ [Exec ns argv]) \<le> p \<and> p < length t' \<longrightarrow> answered w t' p" by simp
  from Cons.IH [OF rs r a] show ?case .
qed

lemma isRun_tcStep: "isRun (tcStep parentToks h tc) = wellFormed tc"
  by (cases "Tc.Type tc") (auto simp: tcStep_def wellFormed_def)

lemma tcStep_Abort: "\<not> wellFormed tc \<Longrightarrow> tcStep parentToks h tc = Abort (rejection tc)"
  by (cases "Tc.Type tc") (auto simp: tcStep_def wellFormed_def rejection_def)

lemma addTc_rejects:
  "\<not> wellFormed tc \<Longrightarrow> addTc w c parentArg handleArg tc t = (Some (rejection tc), t)"
  by (cases "Tc.Type tc") (auto simp: addTc_def wellFormed_def rejection_def)

lemma stepOf_isRun: "stepOf s tc \<Longrightarrow> isRun s = wellFormed tc"
  by (auto simp: stepOf_def isRun_tcStep)

lemma stepOf_Abort: "stepOf s tc \<Longrightarrow> \<not> wellFormed tc \<Longrightarrow> s = Abort (rejection tc)"
  by (auto simp: stepOf_def tcStep_Abort)

lemma globalStepsFrom_stepOf: "list_all2 stepOf (globalStepsFrom i tcs) tcs"
  by (induction tcs arbitrary: i) (auto simp: stepOf_def)

lemma groupStepsFrom_stepOf: "list_all2 stepOf (groupStepsFrom g j i h tcs) tcs"
  by (induction tcs arbitrary: i h) (auto simp: stepOf_def)

lemma filterStepsFrom_stepOf:
  "list_all2 stepOf (filterStepsFrom g j h groups) (concat (map snd groups))"
proof (induction groups arbitrary: j h)
  case Nil
  show ?case by simp
next
  case (Cons grp groups)
  obtain ipset tcs where grp: "grp = (ipset, tcs)" by (cases grp)
  from groupStepsFrom_stepOf [of g j 0 h tcs] Cons.IH [of "Suc j" "h + int (length tcs)"] grp
  show ?case by (simp add: list_all2_appendI)
qed

lemma planSteps_global_stepOf:
  "i < length (globalRules tcs) \<Longrightarrow> stepOf (planSteps tcs groups ! i) (globalRules tcs ! i)"
  using planSteps_global [of i tcs groups] by (auto simp: stepOf_def)

lemma planSteps_filter_stepOf:
  assumes "m < length (concat (map snd groups))"
  shows "stepOf (planSteps tcs groups ! (length (globalRules tcs) + 4 + m))
           (concat (map snd groups) ! m)"
proof -
  let ?g = "length (globalRules tcs)"
  have "planSteps tcs groups ! (?g + 4 + m) = filterSteps ?g groups ! m"
    by (simp add: planSteps_def globalSteps_def nth_append length_globalStepsFrom prioSteps_def)
  moreover from filterStepsFrom_stepOf [of ?g 0 "int ?g + 4" groups] assms
  have "stepOf (filterSteps ?g groups ! m) (concat (map snd groups) ! m)"
    by (simp add: filterSteps_def list_all2_nthD2)
  ultimately show ?thesis by simp
qed

lemma planSteps_isRun:
  assumes n: "n < length (planSteps tcs groups)"
    and G: "\<forall>i<length (globalRules tcs). i \<le> n \<longrightarrow> wellFormed (globalRules tcs ! i)"
    and F: "\<forall>m<length (concat (map snd groups)).
              length (globalRules tcs) + 4 + m \<le> n \<longrightarrow> wellFormed (concat (map snd groups) ! m)"
  shows "\<forall>j\<le>n. isRun (planSteps tcs groups ! j)"
proof (intro allI impI)
  fix j assume j: "j \<le> n"
  let ?g = "length (globalRules tcs)"
  consider (a) "j < ?g" | (b) "j = ?g" | (c) "j = ?g + 1" | (d) "j = ?g + 2" | (e) "j = ?g + 3"
    | (f) "?g + 4 \<le> j" by arith
  then show "isRun (planSteps tcs groups ! j)"
  proof cases
    case a
    with G j have "wellFormed (globalRules tcs ! j)" by simp
    with stepOf_isRun [OF planSteps_global_stepOf [OF a]] show ?thesis by simp
  next
    case b then show ?thesis using planSteps_prio(1) [of tcs groups] by simp
  next
    case c then show ?thesis using planSteps_prio(2) [of tcs groups] by simp
  next
    case d then show ?thesis using planSteps_prio(3) [of tcs groups] by simp
  next
    case e then show ?thesis using planSteps_prio(4) [of tcs groups] by simp
  next
    case f
    define m where "m = j - (?g + 4)"
    with f have jm: "j = ?g + 4 + m" by simp
    with j n have m: "m < length (concat (map snd groups))" by (simp add: length_planSteps)
    with F j jm have "wellFormed (concat (map snd groups) ! m)" by simp
    with stepOf_isRun [OF planSteps_filter_stepOf [OF m, of tcs]] jm show ?thesis by simp
  qed
qed

lemma SetContainerTcRules_run:
  assumes pid: "GetPidFromContainerID w (ContainerId req) = Inr pid"
    and fl: "fst (flush w (buildTcClient (GetNsPath w pid)) []) = None"
    and run: "SetContainerTcRules w ord req = (res, tr)"
  obtains r t where
    "runSteps w (GetNsPath w pid)
       (planSteps (Tcs req) (rangeMap ord (snd (splitTcs (Tcs req) [] []))))
       [Exec (GetNsPath w pid) flushArgv] = (r, t)"
    "\<exists>s. tr = t @ s"
    "r \<noteq> None \<longrightarrow> tr = t \<and> res = map_option WithStack r"
    "r = None \<longrightarrow>
       tr = t @ [SetIptablesChains (GetNsPath w pid) (tcChains (length (globalRules (Tcs req))) ord)]
       \<and> res = map_option WithStack
                 (setIptablesChains w t (GetNsPath w pid)
                    (tcChains (length (globalRules (Tcs req))) ord))"
proof -
  let ?rs = "runSteps w (GetNsPath w pid)
       (planSteps (Tcs req) (rangeMap ord (snd (splitTcs (Tcs req) [] []))))
       [Exec (GetNsPath w pid) flushArgv]"
  obtain r t where rs: "?rs = (r, t)" by force
  show ?thesis
  proof (cases r)
    case None
    with SetContainerTcRules_plan [OF pid fl, of ord] run rs
    have "tr = t @ [SetIptablesChains (GetNsPath w pid) (tcChains (length (globalRules (Tcs req))) ord)]"
      and "res = map_option WithStack
                 (setIptablesChains w t (GetNsPath w pid)
                    (tcChains (length (globalRules (Tcs req))) ord))"
      by simp_all
    with that [OF rs] None show ?thesis by simp
  next
    case (Some e)
    with SetContainerTcRules_plan [OF pid fl, of ord] run rs
    have "tr = t" "res = Some (WithStack e)" by simp_all
    with that [OF rs] Some show ?thesis by simp
  qed
qed

lemma trace_progress:
  assumes pid: "GetPidFromContainerID w (ContainerId req) = Inr pid"
    and fl: "fst (flush w (buildTcClient (GetNsPath w pid)) []) = None"
    and run: "SetContainerTcRules w ord req = (res, tr)"
    and n: "n < length (planSteps (Tcs req) (rangeMap ord (snd (splitTcs (Tcs req) [] []))))"
    and ok: "\<forall>j\<le>n. isRun (planSteps (Tcs req) (rangeMap ord (snd (splitTcs (Tcs req) [] []))) ! j)"
    and an: "\<forall>p. 0 < p \<and> p \<le> n \<and> p < length tr \<longrightarrow> answered w tr p"
  shows "Suc n < length tr"
  using pid fl run
proof (cases rule: SetContainerTcRules_run)
  case (1 r t)
  from 1(2) obtain s where tr: "tr = t @ s" ..
  have "\<forall>p. length [Exec (GetNsPath w pid) flushArgv] \<le> p
        \<and> p < length [Exec (GetNsPath w pid) flushArgv] + n \<and> p < length t \<longrightarrow> answered w t p"
  proof (intro allI impI)
    fix p
    assume a: "length [Exec (GetNsPath w pid) flushArgv] \<le> p
        \<and> p < length [Exec (GetNsPath w pid) flushArgv] + n \<and> p < length t"
    with an tr have "answered w tr p" by simp
    with a tr show "answered w t p" by (simp add: answered_prefix)
  qed
  from runSteps_progress [OF 1(1) n ok this] tr show ?thesis by simp
qed

lemma trace_abort:
  assumes pid: "GetPidFromContainerID w (ContainerId req) = Inr pid"
    and fl: "fst (flush w (buildTcClient (GetNsPath w pid)) []) = None"
    and run: "SetContainerTcRules w ord req = (res, tr)"
    and n: "n < length (planSteps (Tcs req) (rangeMap ord (snd (splitTcs (Tcs req) [] []))))"
    and ab: "planSteps (Tcs req) (rangeMap ord (snd (splitTcs (Tcs req) [] []))) ! n = Abort err"
    and ok: "\<forall>j<n. isRun (planSteps (Tcs req) (rangeMap ord (snd (splitTcs (Tcs req) [] []))) ! j)"
    and an: "\<forall>p. 0 < p \<and> p \<le> n \<and> p < length tr \<longrightarrow> answered w tr p"
  shows "res = Some (WithStack err) \<and> length tr = Suc n"
  using pid fl run
proof (cases rule: SetContainerTcRules_run)
  case (1 r t)
  from 1(2) obtain s where tr: "tr = t @ s" ..
  have "\<forall>p. length [Exec (GetNsPath w pid) flushArgv] \<le> p
        \<and> p < length [Exec (GetNsPath w pid) flushArgv] + n \<and> p < length t \<longrightarrow> answered w t p"
  proof (intro allI impI)
    fix p
    assume a: "length [Exec (GetNsPath w pid) flushArgv] \<le> p
        \<and> p < length [Exec (GetNsPath w pid) flushArgv] + n \<and> p < length t"
    with an tr have "answered w tr p" by simp
    with a tr show "answered w t p" by (simp add: answered_prefix)
  qed
  from runSteps_abort [OF 1(1) n ab ok this]
  have r: "r = Some err" and l: "length t = Suc n" by simp_all
  with 1(3) show ?thesis by simp
qed

lemma trace_complete:
  assumes pid: "GetPidFromContainerID w (ContainerId req) = Inr pid"
    and fl: "fst (flush w (buildTcClient (GetNsPath w pid)) []) = None"
    and run: "SetContainerTcRules w ord req = (res, tr)"
    and ok: "\<forall>j<length (planSteps (Tcs req) (rangeMap ord (snd (splitTcs (Tcs req) [] [])))).
               isRun (planSteps (Tcs req) (rangeMap ord (snd (splitTcs (Tcs req) [] []))) ! j)"
    and an: "\<forall>p. 0 < p
               \<and> p \<le> length (planSteps (Tcs req) (rangeMap ord (snd (splitTcs (Tcs req) [] []))))
               \<and> p < length tr \<longrightarrow> answered w tr p"
  shows "length tr = length (planSteps (Tcs req) (rangeMap ord (snd (splitTcs (Tcs req) [] [])))) + 2
    \<and> tr ! (length (planSteps (Tcs req) (rangeMap ord (snd (splitTcs (Tcs req) [] [])))) + 1)
        = SetIptablesChains (GetNsPath w pid) (tcChains (length (globalRules (Tcs req))) ord)"
  using pid fl run
proof (cases rule: SetContainerTcRules_run)
  case (1 r t)
  let ?plan = "planSteps (Tcs req) (rangeMap ord (snd (splitTcs (Tcs req) [] [])))"
  from 1(2) obtain s where tr: "tr = t @ s" ..
  from runSteps_length_le [OF 1(1)] have le: "length t \<le> Suc (length ?plan)" by simp
  have "\<forall>p. length [Exec (GetNsPath w pid) flushArgv] \<le> p \<and> p < length t \<longrightarrow> answered w t p"
  proof (intro allI impI)
    fix p
    assume a: "length [Exec (GetNsPath w pid) flushArgv] \<le> p \<and> p < length t"
    with an tr le have "answered w tr p" by simp
    with a tr show "answered w t p" by (simp add: answered_prefix)
  qed
  from runSteps_complete [OF 1(1) ok this] have r: "r = None" .
  from runSteps_length_ok [OF 1(1) [unfolded r]] have l: "length t = Suc (length ?plan)" by simp
  from r 1(4) l show ?thesis by (simp add: nth_append)
qed

subsection \<open>Calls that are issued, and runs that stop at a rejected rule\<close>

lemma sample3_run:
  "SetContainerTcRules okWorld [] sampleRequest3 =
     (None,
      [Exec ''/proc/1/ns/net'' [''qdisc'', ''del'', ''dev'', ''eth0'', ''root''],
       Exec ''/proc/1/ns/net'' [''qdisc'', ''add'', ''dev'', ''eth0'', ''root'', ''handle'', ''1:'', ''tbf'', ''rate'', ''1000000'', ''burst'', ''10000''],
       Exec ''/proc/1/ns/net'' [''qdisc'', ''add'', ''dev'', ''eth0'', ''parent'', ''1:'', ''handle'', ''2:'', ''netem'', ''delay'', ''50000''],
       Exec ''/proc/1/ns/net'' [''qdisc'', ''add'', ''dev'', ''eth0'', ''parent'', ''2:'', ''handle'', ''3:'', ''prio'', ''bands'', ''3'',
          ''priomap'', ''1'', ''2'', ''2'', ''2'', ''1'', ''2'', ''0'', ''0'', ''1'', ''1'', ''1'', ''1'', ''1'', ''1'', ''1'', ''1''],
       Exec ''/proc/1/ns/net'' [''qdisc'', ''add'', ''dev'', ''eth0'', ''parent'', ''3:1'', ''handle'', ''4:'', ''sfq''],
       Exec ''/proc/1/ns/net'' [''qdisc'', ''add'', ''dev'', ''eth0'', ''parent'', ''3:2'', ''handle'', ''5:'', ''sfq''],
       Exec ''/proc/1/ns/net'' [''qdisc'', ''add'', ''dev'', ''eth0'', ''parent'', ''3:3'', ''handle'', ''6:'', ''sfq''],
       SetIptablesChains ''/proc/1/ns/net'' []])"
  by (simp add: run_eval okWorld_def sampleRequest3_def netemTc_def tbfTc_def zeroNetem_def
      convertNetemToArgs_Join netemTokens_def convertTbfToArgs_def show_eval)

lemma sample4_run:
  "SetContainerTcRules okWorld [] sampleRequest4 =
     (Some (WithStack (Errorf ''netem is nil while type is NETEM'')),
      [Exec ''/proc/1/ns/net'' [''qdisc'', ''del'', ''dev'', ''eth0'', ''root''],
       Exec ''/proc/1/ns/net'' [''qdisc'', ''add'', ''dev'', ''eth0'', ''root'', ''handle'', ''1:'', ''netem'', ''delay'', ''50000'']])"
  by (simp add: run_eval okWorld_def sampleRequest4_def netemTc_def zeroNetem_def
      convertNetemToArgs_Join netemTokens_def show_eval)

lemma okWorld_flush: "fst (flush okWorld c t) = None"
  by (simp add: flush_def runTc_def okWorld_def)

lemma okWorld_answered: "answered okWorld tr p"
  by (simp add: answered_def okWorld_def split: event.splits)

lemma okWorld_pid: "GetPidFromContainerID okWorld cid = Inr 1"
  by (simp add: okWorld_def)

lemma wellFormed_samples: "wellFormed (netemTc d s)" "wellFormed (tbfTc r b s)"
  "\<not> wellFormed ((netemTc d s)\<lparr>Netem := None\<rparr>)"
  by (simp_all add: wellFormed_def netemTc_def tbfTc_def)

lemma global_issued:
  assumes pid: "GetPidFromContainerID w (ContainerId req) = Inr pid"
    and fl: "fst (flush w (buildTcClient (GetNsPath w pid)) []) = None"
    and run: "SetContainerTcRules w ord req = (res, tr)"
    and i: "i < length (globalRules (Tcs req))"
    and wf: "\<forall>j\<le>i. wellFormed (globalRules (Tcs req) ! j)"
    and an: "\<forall>p. 0 < p \<and> p \<le> i \<and> p < length tr \<longrightarrow> answered w tr p"
  shows "Suc i < length tr"
proof -
  let ?plan = "planSteps (Tcs req) (rangeMap ord (snd (splitTcs (Tcs req) [] [])))"
  from i have n: "i < length ?plan" by (simp add: length_planSteps)
  have "\<forall>j\<le>i. isRun (?plan ! j)"
    by (rule planSteps_isRun [OF n]) (use wf i in auto)
  from trace_progress [OF pid fl run n this an] show ?thesis .
qed

lemma prio_issued:
  assumes pid: "GetPidFromContainerID w (ContainerId req) = Inr pid"
    and fl: "fst (flush w (buildTcClient (GetNsPath w pid)) []) = None"
    and run: "SetContainerTcRules w ord req = (res, tr)"
    and k: "k \<le> 3"
    and wf: "\<forall>tc \<in> set (globalRules (Tcs req)). wellFormed tc"
    and an: "\<forall>p. 0 < p \<and> p \<le> length (globalRules (Tcs req)) + k \<and> p < length tr \<longrightarrow> answered w tr p"
  shows "length (globalRules (Tcs req)) + 1 + k < length tr"
proof -
  let ?plan = "planSteps (Tcs req) (rangeMap ord (snd (splitTcs (Tcs req) [] [])))"
  let ?g = "length (globalRules (Tcs req))"
  from k have n: "?g + k < length ?plan" by (simp add: length_planSteps)
  have "\<forall>j\<le>?g + k. isRun (?plan ! j)"
    by (rule planSteps_isRun [OF n]) (use wf k in auto)
  from trace_progress [OF pid fl run n this an] show ?thesis by simp
qed

lemma filteredRules_groups:
  "set ord = set (destinationSets tcs)
   \<Longrightarrow> concat (map snd (rangeMap ord (snd (splitTcs tcs [] [])))) = filteredRules ord tcs"
  by (simp add: groups_of_order filteredRules_def)

lemma filter_issued:
  assumes pid: "GetPidFromContainerID w (ContainerId req) = Inr pid"
    and fl: "fst (flush w (buildTcClient (GetNsPath w pid)) []) = None"
    and run: "SetContainerTcRules w ord req = (res, tr)"
    and ord: "set ord = set (destinationSets (Tcs req))"
    and m: "m < length (filteredRules ord (Tcs req))"
    and wf: "\<forall>tc \<in> set (globalRules (Tcs req)). wellFormed tc"
    and wfF: "\<forall>m'\<le>m. wellFormed (filteredRules ord (Tcs req) ! m')"
    and an: "\<forall>p. 0 < p \<and> p \<le> length (globalRules (Tcs req)) + 4 + m \<and> p < length tr
               \<longrightarrow> answered w tr p"
  shows "length (globalRules (Tcs req)) + 5 + m < length tr"
proof -
  let ?groups = "rangeMap ord (snd (splitTcs (Tcs req) [] []))"
  let ?plan = "planSteps (Tcs req) ?groups"
  let ?g = "length (globalRules (Tcs req))"
  note F = filteredRules_groups [OF ord]
  from m have n: "?g + 4 + m < length ?plan" by (simp add: length_planSteps F)
  have "\<forall>j\<le>?g + 4 + m. isRun (?plan ! j)"
    by (rule planSteps_isRun [OF n]) (use wf wfF in \<open>auto simp: F\<close>)
  from trace_progress [OF pid fl run n this an] show ?thesis by simp
qed

lemma filteredRules_subset: "set (filteredRules ord tcs) \<subseteq> set tcs"
  by (auto simp: filteredRules_def groupsIn_def groupRules_def)

lemma globalRules_subset: "set (globalRules tcs) \<subseteq> set tcs"
  by (auto simp: globalRules_def)

lemma chains_issued:
  assumes pid: "GetPidFromContainerID w (ContainerId req) = Inr pid"
    and fl: "fst (flush w (buildTcClient (GetNsPath w pid)) []) = None"
    and run: "SetContainerTcRules w ord req = (res, tr)"
    and ord: "set ord = set (destinationSets (Tcs req))"
    and wf: "\<forall>tc \<in> set (Tcs req). wellFormed tc"
    and an: "\<forall>p. 0 < p \<and> p \<le> length (globalRules (Tcs req)) + 4 + length (filteredRules ord (Tcs req))
               \<and> p < length tr \<longrightarrow> answered w tr p"
  shows "length tr = length (globalRules (Tcs req)) + 6 + length (filteredRules ord (Tcs req))
    \<and> tr ! (length (globalRules (Tcs req)) + 5 + length (filteredRules ord (Tcs req)))
        = SetIptablesChains (GetNsPath w pid) (tcChains (length (globalRules (Tcs req))) ord)"
proof -
  let ?groups = "rangeMap ord (snd (splitTcs (Tcs req) [] []))"
  let ?plan = "planSteps (Tcs req) ?groups"
  let ?g = "length (globalRules (Tcs req))"
  note F = filteredRules_groups [OF ord]
  have len: "length ?plan = ?g + 4 + length (filteredRules ord (Tcs req))"
    by (simp add: length_planSteps F)
  have ok: "\<forall>j<length ?plan. isRun (?plan ! j)"
  proof (intro allI impI)
    fix j assume j: "j < length ?plan"
    have wfG: "\<forall>i<length (globalRules (Tcs req)). wellFormed (globalRules (Tcs req) ! i)"
      using wf globalRules_subset [of "Tcs req"] nth_mem by blast
    have wfF: "\<forall>m<length (filteredRules ord (Tcs req)). wellFormed (filteredRules ord (Tcs req) ! m)"
      using wf filteredRules_subset [of ord "Tcs req"] nth_mem by blast
    have "\<forall>j'\<le>j. isRun (?plan ! j')"
      by (rule planSteps_isRun [OF j]) (use wfG wfF in \<open>auto simp: F\<close>)
    then show "isRun (?plan ! j)" by simp
  qed
  from an have an': "\<forall>p. 0 < p \<and> p \<le> length ?plan \<and> p < length tr \<longrightarrow> answered w tr p"
    by (simp add: len)
  have idx: "length ?plan + 1 = ?g + 5 + length (filteredRules ord (Tcs req))"
    by (simp add: len)
  from trace_complete [OF pid fl run ok an'] show ?thesis
    unfolding idx by (simp add: len)
qed

lemma global_rejected:
  assumes pid: "GetPidFromContainerID w (ContainerId req) = Inr pid"
    and fl: "fst (flush w (buildTcClient (GetNsPath w pid)) []) = None"
    and run: "SetContainerTcRules w ord req = (res, tr)"
    and i: "i < length (globalRules (Tcs req))"
    and bad: "\<not> wellFormed (globalRules (Tcs req) ! i)"
    and wf: "\<forall>j<i. wellFormed (globalRules (Tcs req) ! j)"
    and an: "\<forall>p. 0 < p \<and> p \<le> i \<and> p < length tr \<longrightarrow> answered w tr p"
  shows "res = Some (WithStack (rejection (globalRules (Tcs req) ! i))) \<and> length tr = Suc i"
proof -
  let ?plan = "planSteps (Tcs req) (rangeMap ord (snd (splitTcs (Tcs req) [] [])))"
  from i have n: "i < length ?plan" by (simp add: length_planSteps)
  from stepOf_Abort [OF planSteps_global_stepOf [OF i] bad]
  have ab: "?plan ! i = Abort (rejection (globalRules (Tcs req) ! i))" .
  have ok: "\<forall>j<i. isRun (?plan ! j)"
  proof (intro allI impI)
    fix j assume j: "j < i"
    with i have "j < length (globalRules (Tcs req))" by simp
    from stepOf_isRun [OF planSteps_global_stepOf [OF this]] wf j show "isRun (?plan ! j)" by simp
  qed
  from trace_abort [OF pid fl run n ab ok an] show ?thesis .
qed

lemma filter_rejected:
  assumes pid: "GetPidFromContainerID w (ContainerId req) = Inr pid"
    and fl: "fst (flush w (buildTcClient (GetNsPath w pid)) []) = None"
    and run: "SetContainerTcRules w ord req = (res, tr)"
    and ord: "set ord = set (destinationSets (Tcs req))"
    and m: "m < length (filteredRules ord (Tcs req))"
    and bad: "\<not> wellFormed (filteredRules ord (Tcs req) ! m)"
    and wf: "\<forall>tc \<in> set (globalRules (Tcs req)). wellFormed tc"
    and wfF: "\<forall>m'<m. wellFormed (filteredRules ord (Tcs req) ! m')"
    and an: "\<forall>p. 0 < p \<and> p \<le> length (globalRules (Tcs req)) + 4 + m \<and> p < length tr
               \<longrightarrow> answered w tr p"
  shows "res = Some (WithStack (rejection (filteredRules ord (Tcs req) ! m)))
    \<and> length tr = length (globalRules (Tcs req)) + 5 + m"
proof -
  let ?groups = "rangeMap ord (snd (splitTcs (Tcs req) [] []))"
  let ?plan = "planSteps (Tcs req) ?groups"
  let ?g = "length (globalRules (Tcs req))"
  note F = filteredRules_groups [OF ord]
  from m have m': "m < length (concat (map snd ?groups))" by (simp add: F)
  from m have n: "?g + 4 + m < length ?plan" by (simp add: length_planSteps F)
  from stepOf_Abort [OF planSteps_filter_stepOf [OF m', of "Tcs req"]] bad
  have ab: "?plan ! (?g + 4 + m) = Abort (rejection (filteredRules ord (Tcs req) ! m))"
    by (simp add: F)
  have ok: "\<forall>j<?g + 4 + m. isRun (?plan ! j)"
  proof (cases "?g + 4 + m")
    case 0
    then show ?thesis by simp
  next
    case (Suc n')
    then have n': "n' < length ?plan" using n by simp
    have "\<forall>j\<le>n'. isRun (?plan ! j)"
      by (rule planSteps_isRun [OF n']) (use wf wfF Suc in \<open>auto simp: F\<close>)
    with Suc show ?thesis by (simp add: less_Suc_eq_le)
  qed
  from trace_abort [OF pid fl run n ab ok an] show ?thesis by simp
qed

lemma sample5_run:
  "SetContainerTcRules okWorld [''A''] sampleRequest5 =
     (Some (WithStack (Errorf ''tbf is nil while type is BANDWIDTH'')),
      [Exec ''/proc/1/ns/net'' [''qdisc'', ''del'', ''dev'', ''eth0'', ''root''],
       Exec ''/proc/1/ns/net'' [''qdisc'', ''add'', ''dev'', ''eth0'', ''root'', ''handle'', ''1:'', ''netem'', ''delay'', ''50000''],
       Exec ''/proc/1/ns/net'' [''qdisc'', ''add'', ''dev'', ''eth0'', ''parent'', ''1:'', ''handle'', ''2:'', ''prio'', ''bands'', ''4'',
          ''priomap'', ''1'', ''2'', ''2'', ''2'', ''1'', ''2'', ''0'', ''0'', ''1'', ''1'', ''1'', ''1'', ''1'', ''1'', ''1'', ''1''],
       Exec ''/proc/1/ns/net'' [''qdisc'', ''add'', ''dev'', ''eth0'', ''parent'', ''2:1'', ''handle'', ''3:'', ''sfq''],
       Exec ''/proc/1/ns/net'' [''qdisc'', ''add'', ''dev'', ''eth0'', ''parent'', ''2:2'', ''handle'', ''4:'', ''sfq''],
       Exec ''/proc/1/ns/net'' [''qdisc'', ''add'', ''dev'', ''eth0'', ''parent'', ''2:3'', ''handle'', ''5:'', ''sfq''],
       Exec ''/proc/1/ns/net'' [''qdisc'', ''add'', ''dev'', ''eth0'', ''parent'', ''2:4'', ''handle'', ''6:'', ''netem'', ''delay'', ''100'']])"
  by (simp add: run_eval okWorld_def sampleRequest5_def netemTc_def tbfTc_def zeroNetem_def
      convertNetemToArgs_Join netemTokens_def show_eval)

lemma sample3_global:
  "globalRules (Tcs sampleRequest3) = [tbfTc 1000000 10000 [], netemTc 50000 []]"
  by (simp add: globalRules_def sampleRequest3_def netemTc_def tbfTc_def)

lemma sample3_sets: "destinationSets (Tcs sampleRequest3) = []"
  by (simp add: destinationSets_def sampleRequest3_def netemTc_def tbfTc_def)

lemma sample4_global:
  "globalRules (Tcs sampleRequest4)
     = [netemTc 50000 [], (netemTc 100 [])\<lparr>Netem := None\<rparr>, netemTc 7 []]"
  by (simp add: globalRules_def sampleRequest4_def netemTc_def)

lemma sample5_global: "globalRules (Tcs sampleRequest5) = [netemTc 50000 []]"
  by (simp add: globalRules_def sampleRequest5_def netemTc_def tbfTc_def)

lemma sample5_sets: "destinationSets (Tcs sampleRequest5) = [''A'']"
  by (simp add: destinationSets_def sampleRequest5_def netemTc_def tbfTc_def)

lemma sample5_filtered:
  "filteredRules [''A''] (Tcs sampleRequest5) = [netemTc 100 ''A'', (tbfTc 1 1 ''A'')\<lparr>Tbf := None\<rparr>]"
  by (simp add: filteredRules_def groupsIn_def groupRules_def sampleRequest5_def netemTc_def tbfTc_def)

lemma sample2_filtered:
  "filteredRules [''A'', ''B''] (Tcs sampleRequest2)
     = [netemTc 100 ''A'', netemTc 300 ''A'', netemTc 200 ''B'']"
  by (simp add: filteredRules_def groupsIn_def groupRules_def sampleRequest2_def netemTc_def)

lemma sample_filtered_BA:
  "filteredRules [''B'', ''A''] (Tcs sampleRequest) = [netemTc 100000 ''B'', netemTc 50000 ''A'']"
  by (simp add: filteredRules_def groupsIn_def groupRules_def sampleRequest_def netemTc_def)

lemma sample_kind3:
  "tcKindArgs (tbfTc 1000000 10000 s) = [''tbf'', ''rate'', ''1000000'', ''burst'', ''10000'']"
  by (simp add: tcKindArgs_def tbfTc_def Split_convertTbfToArgs tbfTokens_def show_eval)

lemma rejection_samples:
  "rejection ((netemTc d s)\<lparr>Netem := None\<rparr>) = Errorf ''netem is nil while type is NETEM''"
  "rejection ((tbfTc r b s)\<lparr>Tbf := None\<rparr>) = Errorf ''tbf is nil while type is BANDWIDTH''"
  by (simp_all add: rejection_def netemTc_def tbfTc_def)

lemma wellFormed_samples2: "\<not> wellFormed ((tbfTc r b s)\<lparr>Tbf := None\<rparr>)"
  by (simp add: wellFormed_def tbfTc_def)

lemma okWorld_ns: "GetNsPath okWorld pid = ''/proc/1/ns/net''"
  by (simp add: okWorld_def)

lemma concat_groupOffset:
  "j < length groups \<Longrightarrow> i < length (snd (groups ! j))
   \<Longrightarrow> concat (map snd groups) ! (groupOffset groups j + i) = snd (groups ! j) ! i"
proof (induction groups arbitrary: j)
  case Nil
  then show ?case by simp
next
  case (Cons grp groups)
  obtain ipset tcs where grp: "grp = (ipset, tcs)" by (cases grp)
  show ?case
  proof (cases j)
    case 0
    with Cons.prems grp show ?thesis by (simp add: groupOffset_0 nth_append)
  next
    case (Suc j')
    with Cons.prems have "j' < length groups" "i < length (snd (groups ! j'))" by simp_all
    from Cons.IH [OF this] Suc grp show ?thesis
      by (simp add: groupOffset_Suc nth_append add.assoc)
  qed
qed

lemma filteredRules_nth:
  assumes j: "j < length ord" and i: "i < length (groupRules tcs (ord ! j))"
  shows "groupOffset (groupsIn ord tcs) j + i < length (filteredRules ord tcs)
    \<and> filteredRules ord tcs ! (groupOffset (groupsIn ord tcs) j + i) = groupRules tcs (ord ! j) ! i"
proof -
  from j have j': "j < length (groupsIn ord tcs)" by (simp add: groupsIn_def)
  from j have grp: "snd (groupsIn ord tcs ! j) = groupRules tcs (ord ! j)"
    by (simp add: groupsIn_def)
  from i grp have i': "i < length (snd (groupsIn ord tcs ! j))" by simp
  from groupOffset_bound [OF j' i'] concat_groupOffset [OF j' i'] grp
  show ?thesis by (simp add: filteredRules_def)
qed

section \<open>The claims\<close>

subsection \<open>The argument codec\<close>

text \<open>
  C6. The Netem encoding is the token list of the specification joined by single spaces:
  every sub-field that is not positive is left out, and \<open>reorder\<close> with its correlation and
  \<open>gap\<close> appear only under a positive delay. Without a positive delay none of the tokens
  \<open>delay\<close>, \<open>reorder\<close>, \<open>gap\<close> is printed. A payload with only \<open>delay = 50000\<close> gives the
  tokens \<open>delay 50000\<close>, adding \<open>jitter = 10\<close> gives \<open>delay 50000 10\<close>, and
  \<open>reorder = 0.5\<close> without a delay gives no \<open>reorder\<close> token.
\<close>

theorem convertNetemToArgs_encoding:
  "convertNetemToArgs n = Join (netemTokens n) '' ''
   \<and> (Time n \<le> 0 \<longrightarrow> ''delay'' \<notin> set (Split (convertNetemToArgs n))
         \<and> ''reorder'' \<notin> set (Split (convertNetemToArgs n))
         \<and> ''gap'' \<notin> set (Split (convertNetemToArgs n)))
   \<and> Split (convertNetemToArgs (zeroNetem\<lparr>Time := 50000\<rparr>)) = [''delay'', ''50000'']
   \<and> Split (convertNetemToArgs (zeroNetem\<lparr>Time := 50000, Jitter := 10\<rparr>))
       = [''delay'', ''50000'', ''10'']
   \<and> ''reorder'' \<notin> set (Split (convertNetemToArgs (zeroNetem\<lparr>Reorder := Finite 1 (- 1)\<rparr>)))"
proof (intro conjI impI)
  show "convertNetemToArgs n = Join (netemTokens n) '' ''"
    by (rule convertNetemToArgs_Join)
next
  assume t: "Time n \<le> 0"
  then have "\<not> 0 < Time n" by simp
  from netemTokens_no_delay [OF this]
  show "''delay'' \<notin> set (Split (convertNetemToArgs n))"
    "''reorder'' \<notin> set (Split (convertNetemToArgs n))"
    "''gap'' \<notin> set (Split (convertNetemToArgs n))"
    by (simp_all add: Split_convertNetemToArgs)
next
  show "Split (convertNetemToArgs (zeroNetem\<lparr>Time := 50000\<rparr>)) = [''delay'', ''50000'']"
    by (simp add: Split_convertNetemToArgs netemTokens_def zeroNetem_def show_eval)
next
  show "Split (convertNetemToArgs (zeroNetem\<lparr>Time := 50000, Jitter := 10\<rparr>))
       = [''delay'', ''50000'', ''10'']"
    by (simp add: Split_convertNetemToArgs netemTokens_def zeroNetem_def show_eval)
next
  show "''reorder'' \<notin> set (Split (convertNetemToArgs (zeroNetem\<lparr>Reorder := Finite 1 (- 1)\<rparr>)))"
    by (simp add: Split_convertNetemToArgs netemTokens_def zeroNetem_def)
qed

theorem convertNetemToArgs_encoding_witness:
  "Time (zeroNetem\<lparr>Netem.Limit := 7, Reorder := Finite 1 (- 1)\<rparr>) \<le> 0
   \<and> convertNetemToArgs (zeroNetem\<lparr>Netem.Limit := 7, Reorder := Finite 1 (- 1)\<rparr>) = ''limit 7''
   \<and> ''reorder'' \<notin> set (Split (convertNetemToArgs (zeroNetem\<lparr>Netem.Limit := 7, Reorder := Finite 1 (- 1)\<rparr>)))"
  using convertNetemToArgs_encoding [of "zeroNetem\<lparr>Netem.Limit := 7, Reorder := Finite 1 (- 1)\<rparr>"]
  by (simp add: netemTokens_def zeroNetem_def show_eval)

text \<open>
  C9. The Bandwidth encoding starts with \<open>rate <r> burst <b>\<close> for every rate and burst,
  has \<open>limit <n>\<close> exactly when the queue limit is positive, and \<open>peakrate <p> mtu <m>\<close>
  exactly when the peak rate is positive, where \<open><m>\<close> is the minimum-burst field.
\<close>

theorem convertTbfToArgs_encoding:
  "convertTbfToArgs t =
     ''rate '' @ showInt (Rate t) @ '' burst '' @ showInt (Buffer t)
     @ (if 0 < Tbf.Limit t then '' limit '' @ showInt (Tbf.Limit t) else [])
     @ (if 0 < PeakRate t then '' peakrate '' @ showInt (PeakRate t) @ '' mtu '' @ showInt (MinBurst t)
        else [])
   \<and> Split (convertTbfToArgs t) = tbfTokens t
   \<and> take 4 (Split (convertTbfToArgs t)) = [''rate'', showInt (Rate t), ''burst'', showInt (Buffer t)]
   \<and> (''limit'' \<in> set (Split (convertTbfToArgs t)) \<longleftrightarrow> 0 < Tbf.Limit t)
   \<and> (''peakrate'' \<in> set (Split (convertTbfToArgs t)) \<longleftrightarrow> 0 < PeakRate t)
   \<and> (''mtu'' \<in> set (Split (convertTbfToArgs t)) \<longleftrightarrow> 0 < PeakRate t)"
proof (intro conjI)
  show "convertTbfToArgs t =
     ''rate '' @ showInt (Rate t) @ '' burst '' @ showInt (Buffer t)
     @ (if 0 < Tbf.Limit t then '' limit '' @ showInt (Tbf.Limit t) else [])
     @ (if 0 < PeakRate t then '' peakrate '' @ showInt (PeakRate t) @ '' mtu '' @ showInt (MinBurst t)
        else [])"
    by (simp add: convertTbfToArgs_def)
  show "Split (convertTbfToArgs t) = tbfTokens t" by (rule Split_convertTbfToArgs)
  show "take 4 (Split (convertTbfToArgs t)) = [''rate'', showInt (Rate t), ''burst'', showInt (Buffer t)]"
    by (simp add: Split_convertTbfToArgs tbfTokens_def)
  show "''limit'' \<in> set (Split (convertTbfToArgs t)) \<longleftrightarrow> 0 < Tbf.Limit t"
    using showInt_neq_kw2 [symmetric]
    by (simp add: Split_convertTbfToArgs tbfTokens_def)
  show "''peakrate'' \<in> set (Split (convertTbfToArgs t)) \<longleftrightarrow> 0 < PeakRate t"
    using showInt_neq_kw2 [symmetric]
    by (simp add: Split_convertTbfToArgs tbfTokens_def)
  show "''mtu'' \<in> set (Split (convertTbfToArgs t)) \<longleftrightarrow> 0 < PeakRate t"
    using showInt_neq_kw2 [symmetric]
    by (simp add: Split_convertTbfToArgs tbfTokens_def)
qed

subsection \<open>Rendering one qdisc\<close>

text \<open>
  C10. \<open>generateQdiscArgs\<close> fails exactly when the qdisc is nil or its type is the empty
  string. Otherwise a nil parent and the parent \<open>1:0\<close> are both rendered as the single token
  \<open>root\<close>, and a nil handle is rendered as \<open>handle 1:0\<close>.
\<close>

theorem generateQdiscArgs_contract:
  "(isl (generateQdiscArgs action q) \<longleftrightarrow> (q = None \<or> (\<exists>x. q = Some x \<and> Qdisc.Type x = [])))
   \<and> (\<forall>x. q = Some x \<and> Qdisc.Type x \<noteq> [] \<longrightarrow>
        (\<exists>P H. generateQdiscArgs action q
                 = Inr ([''qdisc'', action, ''dev'', ''eth0''] @ P @ [''handle'', H, Qdisc.Type x] @ Args x)
           \<and> (Parent x = None \<or> (\<exists>p. Parent x = Some p \<and> Major p = 1 \<and> Minor p = 0)
                \<longrightarrow> P = [''root''])
           \<and> (Handle x = None \<longrightarrow> H = ''1:0'')))"
  by (cases q)
     (auto simp: generateQdiscArgs_def Let_def showHandle_def show_eval split: option.splits)

theorem generateQdiscArgs_contract_witness:
  "Qdisc.Type sampleQdisc \<noteq> []
   \<and> Parent sampleQdisc = Some \<lparr>Major = 1, Minor = 0\<rparr> \<and> Handle sampleQdisc = None
   \<and> generateQdiscArgs ''add'' (Some sampleQdisc)
       = Inr [''qdisc'', ''add'', ''dev'', ''eth0'', ''root'', ''handle'', ''1:0'', ''netem'',
              ''delay'', ''50000'']
   \<and> generateQdiscArgs ''add'' (Some (sampleQdisc\<lparr>Parent := None\<rparr>))
       = generateQdiscArgs ''add'' (Some sampleQdisc)
   \<and> isl (generateQdiscArgs ''add'' None)
   \<and> isl (generateQdiscArgs ''add'' (Some (sampleQdisc\<lparr>Type := []\<rparr>)))"
  using generateQdiscArgs_contract [of "''add''" "Some sampleQdisc"]
    generateQdiscArgs_contract [of "''add''" "Some (sampleQdisc\<lparr>Parent := None\<rparr>)"]
    generateQdiscArgs_contract [of "''add''" None]
    generateQdiscArgs_contract [of "''add''" "Some (sampleQdisc\<lparr>Type := []\<rparr>)"]
  by (simp add: sampleQdisc_def)

subsection \<open>The tc client\<close>

text \<open>
  C2. \<open>flush\<close> should succeed when the command fails with either of the two messages for
  "nothing to remove". The code looks for \<open>RULE_NOT_EXIST\<close> only, which is the older
  message; the constant \<open>ruleNotExist\<close> with the newer message is declared and never read.
  On a command that fails with the newer message, \<open>flush\<close> returns the error.
\<close>

theorem flush_handle_of_zero:
  "Contains (''Error: Cannot delete qdisc with handle of zero.'' @ [CHR 0x0A]) ruleNotExist
   \<and> flush (failingWorld (''Error: Cannot delete qdisc with handle of zero.'' @ [CHR 0x0A]))
        (buildTcClient ''/proc/1/ns/net'') []
      = (Some (ExitError ''exit status 2''),
         [Exec ''/proc/1/ns/net'' [''qdisc'', ''del'', ''dev'', ''eth0'', ''root'']])"
  by (simp add: flush_def runTc_def failingWorld_def buildTcClient_def ruleNotExist_def
      RULE_NOT_EXIST_def)

text \<open>
  C8, as stated: \<open>addTc\<close> returns an error if and only if the rule is malformed. This fails
  on a well-formed Netem rule whose command fails: the rule is well-formed and \<open>addTc\<close>
  returns the error of the command.
\<close>

theorem addTc_iff_counterexample:
  "\<not> (fst (addTc (failingWorld ''Error: Exclusivity flag on, cannot modify.'')
              (buildTcClient ''/proc/1/ns/net'') ''root'' ''handle 1:'' (netemTc 50000 []) []) \<noteq> None
       \<longleftrightarrow> (Tc.Type (netemTc 50000 []) \<noteq> Tc_NETEM \<and> Tc.Type (netemTc 50000 []) \<noteq> Tc_BANDWIDTH)
           \<or> (Tc.Type (netemTc 50000 []) = Tc_BANDWIDTH \<and> Tbf (netemTc 50000 []) = None)
           \<or> (Tc.Type (netemTc 50000 []) = Tc_NETEM \<and> Netem (netemTc 50000 []) = None))"
  by (simp add: addTc_def addNetem_def runTc_def failingWorld_def netemTc_def)

text \<open>
  C8, amended: \<open>addTc\<close> returns an error without running any command if and only if the
  type of the rule is neither NETEM nor BANDWIDTH, or it is BANDWIDTH with a nil Tbf, or it
  is NETEM with a nil Netem. For a well-formed rule it returns what the corresponding add
  operation returns, an error included.
\<close>

theorem addTc_contract:
  "((\<exists>e. addTc w c parentArg handleArg tc t = (Some e, t))
      \<longleftrightarrow> (Tc.Type tc \<noteq> Tc_NETEM \<and> Tc.Type tc \<noteq> Tc_BANDWIDTH)
          \<or> (Tc.Type tc = Tc_BANDWIDTH \<and> Tbf tc = None)
          \<or> (Tc.Type tc = Tc_NETEM \<and> Netem tc = None))
   \<and> (\<forall>tbf. Tc.Type tc = Tc_BANDWIDTH \<and> Tbf tc = Some tbf
         \<longrightarrow> addTc w c parentArg handleArg tc t = addTbf w c parentArg handleArg tbf t)
   \<and> (\<forall>netem. Tc.Type tc = Tc_NETEM \<and> Netem tc = Some netem
         \<longrightarrow> addTc w c parentArg handleArg tc t = addNetem w c parentArg handleArg netem t)"
proof -
  have grow: "snd (addTbf w c parentArg handleArg tbf t) \<noteq> t"
    "snd (addNetem w c parentArg handleArg netem t) \<noteq> t" for tbf netem
    by (simp_all add: addTbf_def addNetem_def runTc_def Let_def split: prod.splits option.splits)
  have a: "addTc w c parentArg handleArg tc t = addTbf w c parentArg handleArg tbf t"
    if "Tc.Type tc = Tc_BANDWIDTH" "Tbf tc = Some tbf" for tbf
    using that by (simp add: addTc_def split: prod.splits option.splits)
  have b: "addTc w c parentArg handleArg tc t = addNetem w c parentArg handleArg netem t"
    if "Tc.Type tc = Tc_NETEM" "Netem tc = Some netem" for netem
    using that by (simp add: addTc_def split: prod.splits option.splits)
  have c: "(\<exists>e. addTc w c parentArg handleArg tc t = (Some e, t))
      \<longleftrightarrow> (Tc.Type tc \<noteq> Tc_NETEM \<and> Tc.Type tc \<noteq> Tc_BANDWIDTH)
          \<or> (Tc.Type tc = Tc_BANDWIDTH \<and> Tbf tc = None)
          \<or> (Tc.Type tc = Tc_NETEM \<and> Netem tc = None)"
  proof (cases "Tc.Type tc")
    case Tc_BANDWIDTH
    show ?thesis
    proof (cases "Tbf tc")
      case None
      with Tc_BANDWIDTH show ?thesis by (simp add: addTc_def)
    next
      case (Some tbf)
      with Tc_BANDWIDTH a [of tbf] grow(1) [of tbf] show ?thesis
        by (auto simp: prod_eq_iff)
    qed
  next
    case Tc_NETEM
    show ?thesis
    proof (cases "Netem tc")
      case None
      with Tc_NETEM show ?thesis by (simp add: addTc_def)
    next
      case (Some netem)
      with Tc_NETEM b [of netem] grow(2) [of netem] show ?thesis
        by (auto simp: prod_eq_iff)
    qed
  next
    case Tc_Other
    then show ?thesis by (simp add: addTc_def)
  qed
  from a b c show ?thesis by blast
qed

theorem addTc_contract_witness:
  "Tc.Type (netemTc 50000 []) = Tc_NETEM
   \<and> Netem (netemTc 50000 []) = Some (zeroNetem\<lparr>Time := 50000\<rparr>)
   \<and> addTc okWorld (buildTcClient ''ns'') ''root'' ''handle 1:'' (netemTc 50000 []) []
      = addNetem okWorld (buildTcClient ''ns'') ''root'' ''handle 1:'' (zeroNetem\<lparr>Time := 50000\<rparr>) []
   \<and> Tc.Type ((netemTc 50000 [])\<lparr>Netem := None\<rparr>) = Tc_NETEM
   \<and> Netem ((netemTc 50000 [])\<lparr>Netem := None\<rparr>) = None
   \<and> (\<exists>e. addTc okWorld (buildTcClient ''ns'') ''root'' ''handle 1:''
              ((netemTc 50000 [])\<lparr>Netem := None\<rparr>) [] = (Some e, []))"
  using addTc_contract [of okWorld "buildTcClient ''ns''" "''root''" "''handle 1:''"
      "netemTc 50000 []" "[]"]
    addTc_contract [of okWorld "buildTcClient ''ns''" "''root''" "''handle 1:''"
      "(netemTc 50000 [])\<lparr>Netem := None\<rparr>" "[]"]
  by (simp add: netemTc_def)


subsection \<open>The rule compiler\<close>

text \<open>
  C3. For a request with \<open>g\<close> unfiltered rules, one \<open>qdisc add\<close> is issued per unfiltered
  rule, in input order: if the flush succeeds, the unfiltered rules up to \<open>i\<close> (from 0)
  are well formed and the commands issued before are answered without error, then the run
  has a call number \<open>i + 1\<close>, right after the flush, and this call is
  \<open>qdisc add dev eth0\<close> with parent \<open>root\<close> for \<open>i = 0\<close> and parent \<open>i:\<close> otherwise,
  with handle \<open>i+1:\<close>, followed by the kind and arguments of rule \<open>i\<close>. So the handles of
  the global chain are 1 to \<open>g\<close> in order. Whatever the commands answer, a call number
  \<open>i + 1\<close> of a run is that command, and a run that returns no error has issued all of
  them.
\<close>

theorem global_chain_layout:
  assumes "GetPidFromContainerID w (ContainerId req) = Inr pid"
    and "SetContainerTcRules w ord req = (res, tr)"
  shows "(\<forall>i < length (globalRules (Tcs req)).
            fst (flush w (buildTcClient (GetNsPath w pid)) []) = None
            \<and> (\<forall>j\<le>i. wellFormed (globalRules (Tcs req) ! j))
            \<and> (\<forall>p. 0 < p \<and> p \<le> i \<and> p < length tr \<longrightarrow> answered w tr p) \<longrightarrow>
            Suc i < length tr
            \<and> tr ! Suc i =
                Exec (GetNsPath w pid)
                  ([''qdisc'', ''add'', ''dev'', ''eth0'']
                   @ (if i = 0 then [''root''] else [''parent'', showInt (int i) @ '':''])
                   @ [''handle'', showInt (int i + 1) @ '':'']
                   @ tcKindArgs (globalRules (Tcs req) ! i)))
         \<and> (\<forall>i < length (globalRules (Tcs req)). Suc i < length tr \<longrightarrow>
            wellFormed (globalRules (Tcs req) ! i)
            \<and> tr ! Suc i =
                Exec (GetNsPath w pid)
                  ([''qdisc'', ''add'', ''dev'', ''eth0'']
                   @ (if i = 0 then [''root''] else [''parent'', showInt (int i) @ '':''])
                   @ [''handle'', showInt (int i + 1) @ '':'']
                   @ tcKindArgs (globalRules (Tcs req) ! i)))
         \<and> (res = None \<longrightarrow> length (globalRules (Tcs req)) < length tr)"
proof -
  let ?plan = "planSteps (Tcs req) (rangeMap ord (snd (splitTcs (Tcs req) [] [])))"
  have shape: "wellFormed (globalRules (Tcs req) ! i)
            \<and> tr ! Suc i =
                Exec (GetNsPath w pid)
                  ([''qdisc'', ''add'', ''dev'', ''eth0'']
                   @ (if i = 0 then [''root''] else [''parent'', showInt (int i) @ '':''])
                   @ [''handle'', showInt (int i + 1) @ '':'']
                   @ tcKindArgs (globalRules (Tcs req) ! i))"
    if i: "i < length (globalRules (Tcs req))" and len: "Suc i < length tr" for i
  proof -
    from i have "i < length ?plan" by (simp add: length_planSteps)
    from trace_step [OF assms this len] obtain argv
      where a: "?plan ! i = Run argv" and b: "tr ! Suc i = Exec (GetNsPath w pid) argv" by blast
    from a planSteps_global [OF i]
    have "tcStep (globalParent i) (int i + 1) (globalRules (Tcs req) ! i) = Run argv" by simp
    from tcStep_Run [OF this] b show ?thesis by (simp add: globalParent_def)
  qed
  have issued: "Suc i < length tr"
    if "i < length (globalRules (Tcs req))"
      and "fst (flush w (buildTcClient (GetNsPath w pid)) []) = None
            \<and> (\<forall>j\<le>i. wellFormed (globalRules (Tcs req) ! j))
            \<and> (\<forall>p. 0 < p \<and> p \<le> i \<and> p < length tr \<longrightarrow> answered w tr p)" for i
    using that global_issued [OF assms(1) _ assms(2), of i] by blast
  have ok: "res = None \<longrightarrow> length (globalRules (Tcs req)) < length tr"
    using assms trace_applied [of w req pid ord tr] by (auto simp: length_planSteps)
  show ?thesis
  proof (intro conjI allI impI)
    fix i
    assume i: "i < length (globalRules (Tcs req))"
      and h: "fst (flush w (buildTcClient (GetNsPath w pid)) []) = None
            \<and> (\<forall>j\<le>i. wellFormed (globalRules (Tcs req) ! j))
            \<and> (\<forall>p. 0 < p \<and> p \<le> i \<and> p < length tr \<longrightarrow> answered w tr p)"
    from issued [OF i h] show len: "Suc i < length tr" .
    from shape [OF i len]
    show "tr ! Suc i =
                Exec (GetNsPath w pid)
                  ([''qdisc'', ''add'', ''dev'', ''eth0'']
                   @ (if i = 0 then [''root''] else [''parent'', showInt (int i) @ '':''])
                   @ [''handle'', showInt (int i + 1) @ '':'']
                   @ tcKindArgs (globalRules (Tcs req) ! i))" by simp
  next
    fix i
    assume i: "i < length (globalRules (Tcs req))" and len: "Suc i < length tr"
    from shape [OF i len]
    show "wellFormed (globalRules (Tcs req) ! i)"
      and "tr ! Suc i =
                Exec (GetNsPath w pid)
                  ([''qdisc'', ''add'', ''dev'', ''eth0'']
                   @ (if i = 0 then [''root''] else [''parent'', showInt (int i) @ '':''])
                   @ [''handle'', showInt (int i + 1) @ '':'']
                   @ tcKindArgs (globalRules (Tcs req) ! i))" by simp_all
  next
    assume "res = None"
    with ok show "length (globalRules (Tcs req)) < length tr" by simp
  qed
qed

theorem global_chain_layout_witness:
  "GetPidFromContainerID okWorld (ContainerId sampleRequest3) = Inr 1
   \<and> fst (flush okWorld (buildTcClient (GetNsPath okWorld 1)) []) = None
   \<and> globalRules (Tcs sampleRequest3) = [tbfTc 1000000 10000 [], netemTc 50000 []]
   \<and> wellFormed (tbfTc 1000000 10000 []) \<and> wellFormed (netemTc 50000 [])
   \<and> answered okWorld (snd (SetContainerTcRules okWorld [] sampleRequest3)) 1
   \<and> 2 < length (snd (SetContainerTcRules okWorld [] sampleRequest3))
   \<and> snd (SetContainerTcRules okWorld [] sampleRequest3) ! 1
       = Exec ''/proc/1/ns/net'' [''qdisc'', ''add'', ''dev'', ''eth0'', ''root'', ''handle'', ''1:'',
           ''tbf'', ''rate'', ''1000000'', ''burst'', ''10000'']
   \<and> snd (SetContainerTcRules okWorld [] sampleRequest3) ! 2
       = Exec ''/proc/1/ns/net'' [''qdisc'', ''add'', ''dev'', ''eth0'', ''parent'', ''1:'', ''handle'', ''2:'',
           ''netem'', ''delay'', ''50000'']"
proof -
  obtain tr where tr: "tr = snd (SetContainerTcRules okWorld [] sampleRequest3)" by simp
  have run: "SetContainerTcRules okWorld [] sampleRequest3 = (None, tr)"
    by (simp add: tr sample3_run)
  note T = global_chain_layout [OF okWorld_pid run, THEN conjunct1, rule_format]
  have h: "fst (flush okWorld (buildTcClient (GetNsPath okWorld 1)) []) = None
      \<and> (\<forall>j\<le>i. wellFormed (globalRules (Tcs sampleRequest3) ! j))
      \<and> (\<forall>p. 0 < p \<and> p \<le> i \<and> p < length tr \<longrightarrow> answered okWorld tr p)" if "i < 2" for i
    using that by (auto simp: okWorld_flush okWorld_answered sample3_global wellFormed_samples
        less_Suc_eq_le nth_Cons split: nat.splits)
  have "Suc 0 < length tr \<and> tr ! Suc 0 = Exec (GetNsPath okWorld 1)
          ([''qdisc'', ''add'', ''dev'', ''eth0''] @ [''root''] @ [''handle'', showInt 1 @ '':'']
           @ tcKindArgs (tbfTc 1000000 10000 []))"
    using T [of 0, OF _ h] by (simp add: sample3_global)
  moreover have "Suc 1 < length tr \<and> tr ! Suc 1 = Exec (GetNsPath okWorld 1)
          ([''qdisc'', ''add'', ''dev'', ''eth0''] @ [''parent'', showInt 1 @ '':''] @ [''handle'', showInt 2 @ '':'']
           @ tcKindArgs (netemTc 50000 []))"
    using T [of 1, OF _ h] by (simp add: sample3_global)
  ultimately show ?thesis
    unfolding tr [symmetric]
    by (simp add: okWorld_pid okWorld_flush okWorld_answered sample3_global wellFormed_samples
        sample_kind sample_kind3 okWorld_ns show_eval numeral_2_eq_2)
qed

text \<open>
  C4. For a request with \<open>g\<close> unfiltered rules and \<open>k\<close> distinct destination sets, the
  priority multiplexer is installed after the global chain: if the flush succeeds, the
  unfiltered rules are well formed and the commands issued before are answered without
  error, then the run has a call number \<open>g + 1\<close>, which is \<open>qdisc add dev eth0\<close> with
  parent \<open>root\<close> if \<open>g = 0\<close> and \<open>g:\<close> otherwise, handle \<open>g+1:\<close>, \<open>prio\<close> with
  \<open>3 + k\<close> bands and the fixed priomap; and, the commands before them answered without
  error, the three calls after it, which install the sfq leaves with handles \<open>g+2\<close>,
  \<open>g+3\<close>, \<open>g+4\<close> at the bands \<open>(g+1):1\<close>, \<open>(g+1):2\<close>, \<open>(g+1):3\<close>. Whatever the
  commands answer, the calls of a run at these positions are these commands, a run that
  returns no error has issued all four, and no other call of a run is an sfq qdisc.
\<close>

theorem prio_layout:
  assumes "GetPidFromContainerID w (ContainerId req) = Inr pid"
    and "SetContainerTcRules w ord req = (res, tr)"
    and "g = length (globalRules (Tcs req))"
    and "k = length (destinationSets (Tcs req))"
  shows "(fst (flush w (buildTcClient (GetNsPath w pid)) []) = None
          \<and> (\<forall>tc \<in> set (globalRules (Tcs req)). wellFormed tc)
          \<and> (\<forall>p. 0 < p \<and> p \<le> g \<and> p < length tr \<longrightarrow> answered w tr p) \<longrightarrow>
            g + 1 < length tr
            \<and> tr ! (g + 1) =
              Exec (GetNsPath w pid)
                ([''qdisc'', ''add'', ''dev'', ''eth0'']
                 @ (if g = 0 then [''root''] else [''parent'', showInt (int g) @ '':''])
                 @ [''handle'', showInt (int g + 1) @ '':'', ''prio'', ''bands'', showInt (3 + int k),
                    ''priomap'', ''1'', ''2'', ''2'', ''2'', ''1'', ''2'', ''0'', ''0'',
                    ''1'', ''1'', ''1'', ''1'', ''1'', ''1'', ''1'', ''1'']))
         \<and> (\<forall>i \<in> {1, 2, 3}.
              fst (flush w (buildTcClient (GetNsPath w pid)) []) = None
              \<and> (\<forall>tc \<in> set (globalRules (Tcs req)). wellFormed tc)
              \<and> (\<forall>p. 0 < p \<and> p \<le> g + i \<and> p < length tr \<longrightarrow> answered w tr p) \<longrightarrow>
              g + 1 + i < length tr
              \<and> tr ! (g + 1 + i) =
                Exec (GetNsPath w pid)
                  [''qdisc'', ''add'', ''dev'', ''eth0'', ''parent'',
                   showInt (int g + 1) @ '':'' @ showInt (int i),
                   ''handle'', showInt (int g + 1 + int i) @ '':'', ''sfq''])
         \<and> (g + 1 < length tr \<longrightarrow>
            tr ! (g + 1) =
              Exec (GetNsPath w pid)
                ([''qdisc'', ''add'', ''dev'', ''eth0'']
                 @ (if g = 0 then [''root''] else [''parent'', showInt (int g) @ '':''])
                 @ [''handle'', showInt (int g + 1) @ '':'', ''prio'', ''bands'', showInt (3 + int k),
                    ''priomap'', ''1'', ''2'', ''2'', ''2'', ''1'', ''2'', ''0'', ''0'',
                    ''1'', ''1'', ''1'', ''1'', ''1'', ''1'', ''1'', ''1'']))
         \<and> (\<forall>i \<in> {1, 2, 3}. g + 1 + i < length tr \<longrightarrow>
              tr ! (g + 1 + i) =
                Exec (GetNsPath w pid)
                  [''qdisc'', ''add'', ''dev'', ''eth0'', ''parent'',
                   showInt (int g + 1) @ '':'' @ showInt (int i),
                   ''handle'', showInt (int g + 1 + int i) @ '':'', ''sfq''])
         \<and> (res = None \<longrightarrow> g + 4 < length tr)
         \<and> (\<forall>p ns argv. p < length tr \<and> tr ! p = Exec ns argv \<and> ''sfq'' \<in> set argv \<longrightarrow>
               p = g + 2 \<or> p = g + 3 \<or> p = g + 4)"
  (is "?N1 \<and> ?N2 \<and> ?O1 \<and> ?O2 \<and> ?O3 \<and> ?O4")
proof -
  let ?plan = "planSteps (Tcs req) (rangeMap ord (snd (splitTcs (Tcs req) [] [])))"
  have step: "tr ! Suc n = Exec (GetNsPath w pid) argv"
    if "n < g + 4" "Suc n < length tr" "?plan ! n = Run argv" for n argv
  proof -
    from that(1) assms(3) have "n < length ?plan" by (simp add: length_planSteps)
    from trace_step [OF assms(1,2) this that(2)] that(3) show ?thesis by simp
  qed
  have p0: "g + 1 < length tr \<longrightarrow> tr ! (g + 1) = Exec (GetNsPath w pid) (prioArgv g k)"
    using step [of g "prioArgv g k"] planSteps_prio(1) [of "Tcs req"] assms(3,4) by simp
  have p1: "g + 1 + 1 < length tr \<longrightarrow> tr ! (g + 1 + 1) = Exec (GetNsPath w pid) (sfqArgv g 1)"
    using step [of "g + 1" "sfqArgv g 1"] planSteps_prio(2) [of "Tcs req"] assms(3,4) by simp
  have p2: "g + 1 + 2 < length tr \<longrightarrow> tr ! (g + 1 + 2) = Exec (GetNsPath w pid) (sfqArgv g 2)"
    using step [of "g + 2" "sfqArgv g 2"] planSteps_prio(3) [of "Tcs req"] assms(3,4) by simp
  have p3: "g + 1 + 3 < length tr \<longrightarrow> tr ! (g + 1 + 3) = Exec (GetNsPath w pid) (sfqArgv g 3)"
    using step [of "g + 3" "sfqArgv g 3"] planSteps_prio(4) [of "Tcs req"] assms(3,4) by simp
  have o1: ?O1 using p0 by (simp add: prioArgv_def globalParent_def)
  have o2: ?O2 using p1 p2 p3 by (simp add: sfqArgv_def)
  have o3: ?O3
    using assms trace_applied [of w req pid ord tr] by (auto simp: length_planSteps)
  have o4: ?O4
  proof (intro allI impI)
    fix p ns argv
    assume a: "p < length tr \<and> tr ! p = Exec ns argv \<and> ''sfq'' \<in> set argv"
    then have p: "p < length tr" and ev: "tr ! p = Exec ns argv" and s: "''sfq'' \<in> set argv"
      by simp_all
    from trace_exec [OF assms(1,2) p ev] s flushArgv_no_sfq
    have q: "0 < p" and n: "p - 1 < length ?plan" and r: "?plan ! (p - 1) = Run argv"
      by auto
    from planSteps_sfq [OF n r s] q assms(3)
    show "p = g + 2 \<or> p = g + 3 \<or> p = g + 4" by arith
  qed
  have iss: "g + 1 + n < length tr"
    if "n \<le> 3" and "fst (flush w (buildTcClient (GetNsPath w pid)) []) = None"
      and "\<forall>tc \<in> set (globalRules (Tcs req)). wellFormed tc"
      and "\<forall>p. 0 < p \<and> p \<le> g + n \<and> p < length tr \<longrightarrow> answered w tr p" for n
    using prio_issued [OF assms(1) that(2) assms(2) that(1) that(3)] that(4)
    unfolding assms(3) by blast
  have n1: ?N1
  proof (intro impI, elim conjE)
    assume h: "fst (flush w (buildTcClient (GetNsPath w pid)) []) = None"
      "\<forall>tc \<in> set (globalRules (Tcs req)). wellFormed tc"
      "\<forall>p. 0 < p \<and> p \<le> g \<and> p < length tr \<longrightarrow> answered w tr p"
    from iss [of 0] h have "g + 1 < length tr" by simp
    with o1 show "g + 1 < length tr
            \<and> tr ! (g + 1) =
              Exec (GetNsPath w pid)
                ([''qdisc'', ''add'', ''dev'', ''eth0'']
                 @ (if g = 0 then [''root''] else [''parent'', showInt (int g) @ '':''])
                 @ [''handle'', showInt (int g + 1) @ '':'', ''prio'', ''bands'', showInt (3 + int k),
                    ''priomap'', ''1'', ''2'', ''2'', ''2'', ''1'', ''2'', ''0'', ''0'',
                    ''1'', ''1'', ''1'', ''1'', ''1'', ''1'', ''1'', ''1''])" by blast
  qed
  have n2: ?N2
  proof (intro ballI impI, elim conjE)
    fix i :: nat
    assume i: "i \<in> {1, 2, 3}"
      and h: "fst (flush w (buildTcClient (GetNsPath w pid)) []) = None"
      "\<forall>tc \<in> set (globalRules (Tcs req)). wellFormed tc"
      "\<forall>p. 0 < p \<and> p \<le> g + i \<and> p < length tr \<longrightarrow> answered w tr p"
    from i have "i \<le> 3" by auto
    from iss [OF this h] have len: "g + 1 + i < length tr" .
    from o2 i len show "g + 1 + i < length tr
              \<and> tr ! (g + 1 + i) =
                Exec (GetNsPath w pid)
                  [''qdisc'', ''add'', ''dev'', ''eth0'', ''parent'',
                   showInt (int g + 1) @ '':'' @ showInt (int i),
                   ''handle'', showInt (int g + 1 + int i) @ '':'', ''sfq'']" by blast
  qed
  from n1 n2 o1 o2 o3 o4 show ?thesis by (intro conjI)
qed

theorem prio_layout_witness:
  "GetPidFromContainerID okWorld (ContainerId sampleRequest) = Inr 1
   \<and> fst (flush okWorld (buildTcClient (GetNsPath okWorld 1)) []) = None
   \<and> globalRules (Tcs sampleRequest) = [netemTc 50000 [], netemTc 100000 []]
   \<and> wellFormed (netemTc 50000 []) \<and> wellFormed (netemTc 100000 [])
   \<and> length (destinationSets (Tcs sampleRequest)) = 2
   \<and> answered okWorld (snd (SetContainerTcRules okWorld [''A'', ''B''] sampleRequest)) 1
   \<and> answered okWorld (snd (SetContainerTcRules okWorld [''A'', ''B''] sampleRequest)) 2
   \<and> answered okWorld (snd (SetContainerTcRules okWorld [''A'', ''B''] sampleRequest)) 3
   \<and> answered okWorld (snd (SetContainerTcRules okWorld [''A'', ''B''] sampleRequest)) 4
   \<and> answered okWorld (snd (SetContainerTcRules okWorld [''A'', ''B''] sampleRequest)) 5
   \<and> 2 + 4 < length (snd (SetContainerTcRules okWorld [''A'', ''B''] sampleRequest))
   \<and> snd (SetContainerTcRules okWorld [''A'', ''B''] sampleRequest) ! 3
       = Exec ''/proc/1/ns/net'' [''qdisc'', ''add'', ''dev'', ''eth0'', ''parent'', ''2:'', ''handle'', ''3:'',
           ''prio'', ''bands'', ''5'', ''priomap'', ''1'', ''2'', ''2'', ''2'', ''1'', ''2'', ''0'', ''0'',
           ''1'', ''1'', ''1'', ''1'', ''1'', ''1'', ''1'', ''1'']
   \<and> snd (SetContainerTcRules okWorld [''A'', ''B''] sampleRequest) ! 4
       = Exec ''/proc/1/ns/net'' [''qdisc'', ''add'', ''dev'', ''eth0'', ''parent'', ''3:1'', ''handle'', ''4:'', ''sfq'']
   \<and> snd (SetContainerTcRules okWorld [''A'', ''B''] sampleRequest) ! 5
       = Exec ''/proc/1/ns/net'' [''qdisc'', ''add'', ''dev'', ''eth0'', ''parent'', ''3:2'', ''handle'', ''5:'', ''sfq'']
   \<and> snd (SetContainerTcRules okWorld [''A'', ''B''] sampleRequest) ! 6
       = Exec ''/proc/1/ns/net'' [''qdisc'', ''add'', ''dev'', ''eth0'', ''parent'', ''3:3'', ''handle'', ''6:'', ''sfq'']"
proof -
  obtain tr where tr: "tr = snd (SetContainerTcRules okWorld [''A'', ''B''] sampleRequest)" by simp
  have run: "SetContainerTcRules okWorld [''A'', ''B''] sampleRequest = (None, tr)"
    by (simp add: tr sample_run)
  note T = prio_layout [OF okWorld_pid run refl refl]
  have wf: "\<forall>tc \<in> set (globalRules (Tcs sampleRequest)). wellFormed tc"
    by (simp add: sample_global wellFormed_samples)
  have an: "\<forall>p. 0 < p \<and> p \<le> n \<and> p < length tr \<longrightarrow> answered okWorld tr p" for n
    by (simp add: okWorld_answered)
  from T [THEN conjunct1, rule_format] okWorld_flush wf an
  have a: "length (globalRules (Tcs sampleRequest)) + 1 < length tr
     \<and> tr ! (length (globalRules (Tcs sampleRequest)) + 1) =
              Exec (GetNsPath okWorld 1)
                ([''qdisc'', ''add'', ''dev'', ''eth0'']
                 @ (if length (globalRules (Tcs sampleRequest)) = 0 then [''root'']
                    else [''parent'', showInt (int (length (globalRules (Tcs sampleRequest)))) @ '':''])
                 @ [''handle'', showInt (int (length (globalRules (Tcs sampleRequest))) + 1) @ '':'',
                    ''prio'', ''bands'', showInt (3 + int (length (destinationSets (Tcs sampleRequest)))),
                    ''priomap'', ''1'', ''2'', ''2'', ''2'', ''1'', ''2'', ''0'', ''0'',
                    ''1'', ''1'', ''1'', ''1'', ''1'', ''1'', ''1'', ''1''])"
    by blast
  have b: "length (globalRules (Tcs sampleRequest)) + 1 + i < length tr
     \<and> tr ! (length (globalRules (Tcs sampleRequest)) + 1 + i) =
                Exec (GetNsPath okWorld 1)
                  [''qdisc'', ''add'', ''dev'', ''eth0'', ''parent'',
                   showInt (int (length (globalRules (Tcs sampleRequest))) + 1) @ '':'' @ showInt (int i),
                   ''handle'', showInt (int (length (globalRules (Tcs sampleRequest))) + 1 + int i) @ '':'', ''sfq'']"
    if "i \<in> {1, 2, 3}" for i
    using T [THEN conjunct2, THEN conjunct1, rule_format, OF that] okWorld_flush wf an by blast
  from a b [of 1] b [of 2] b [of 3] show ?thesis
    unfolding tr [symmetric]
    by (simp add: okWorld_pid okWorld_flush okWorld_answered sample_global sample_sets
        wellFormed_samples okWorld_ns show_eval)
       (simp add: eval_nat_numeral)
qed

text \<open>
  C7. A qdisc-add operation of the run fails in one of two ways, and either way the run
  stops there. If the command of a call after the flush is answered with an error, that
  call is the last call of the run and \<open>SetContainerTcRules\<close> returns the error of that
  operation (the runner's output and error as \<open>encodeOutputToError\<close> wraps them, with the
  stack trace attached by \<open>WithStack\<close>). If a rule is rejected by \<open>addTc\<close> before any
  command is run for it (the payload of its type is missing, or its type is unknown), the
  run ends with the command of the rule before it: for the unfiltered rule \<open>i\<close> the run
  has \<open>i + 1\<close> calls, for the filtered rule processed at position \<open>m\<close> it has
  \<open>g + 5 + m\<close> calls, and \<open>SetContainerTcRules\<close> returns the error of \<open>addTc\<close> with
  the stack trace attached. Nothing is attempted after the failed operation and nothing
  is rolled back: the calls made before it are all the calls of the run.
\<close>

theorem abort_on_failure:
  assumes "GetPidFromContainerID w (ContainerId req) = Inr pid"
    and "SetContainerTcRules w ord req = (res, tr)"
  shows "(\<forall>p ns argv out e.
            0 < p \<and> p < length tr \<and> tr ! p = Exec ns argv
            \<and> CombinedOutput w (take p tr) ns argv = (out, Some e) \<longrightarrow>
            length tr = Suc p \<and> res = Some (WithStack (encodeOutputToError out e)))
         \<and> (\<forall>i < length (globalRules (Tcs req)).
              fst (flush w (buildTcClient (GetNsPath w pid)) []) = None
              \<and> \<not> wellFormed (globalRules (Tcs req) ! i)
              \<and> (\<forall>j<i. wellFormed (globalRules (Tcs req) ! j))
              \<and> (\<forall>p. 0 < p \<and> p \<le> i \<and> p < length tr \<longrightarrow> answered w tr p) \<longrightarrow>
              length tr = Suc i
              \<and> res = Some (WithStack (rejection (globalRules (Tcs req) ! i))))
         \<and> (\<forall>m < length (filteredRules ord (Tcs req)).
              set ord = set (destinationSets (Tcs req))
              \<and> fst (flush w (buildTcClient (GetNsPath w pid)) []) = None
              \<and> \<not> wellFormed (filteredRules ord (Tcs req) ! m)
              \<and> (\<forall>tc \<in> set (globalRules (Tcs req)). wellFormed tc)
              \<and> (\<forall>m'<m. wellFormed (filteredRules ord (Tcs req) ! m'))
              \<and> (\<forall>p. 0 < p \<and> p \<le> length (globalRules (Tcs req)) + 4 + m \<and> p < length tr
                     \<longrightarrow> answered w tr p) \<longrightarrow>
              length tr = length (globalRules (Tcs req)) + 5 + m
              \<and> res = Some (WithStack (rejection (filteredRules ord (Tcs req) ! m))))
         \<and> (\<forall>c parentArg handleArg tc t.
              \<not> wellFormed tc \<longrightarrow> addTc w c parentArg handleArg tc t = (Some (rejection tc), t))"
  (is "?A \<and> ?B \<and> ?C \<and> ?D")
proof -
  have a: ?A
  proof (intro allI impI, elim conjE)
    fix p ns argv out e
    assume "0 < p" "p < length tr" "tr ! p = Exec ns argv"
      "CombinedOutput w (take p tr) ns argv = (out, Some e)"
    with assms show "length tr = Suc p \<and> res = Some (WithStack (encodeOutputToError out e))"
      by (rule trace_failure)
  qed
  have b: ?B
  proof (intro allI impI, elim conjE)
    fix i
    assume "i < length (globalRules (Tcs req))"
      "fst (flush w (buildTcClient (GetNsPath w pid)) []) = None"
      "\<not> wellFormed (globalRules (Tcs req) ! i)"
      "\<forall>j<i. wellFormed (globalRules (Tcs req) ! j)"
      "\<forall>p. 0 < p \<and> p \<le> i \<and> p < length tr \<longrightarrow> answered w tr p"
    from global_rejected [OF assms(1) this(2) assms(2) this(1,3,4,5)]
    show "length tr = Suc i \<and> res = Some (WithStack (rejection (globalRules (Tcs req) ! i)))"
      by simp
  qed
  have c: ?C
  proof (intro allI impI, elim conjE)
    fix m
    assume "m < length (filteredRules ord (Tcs req))"
      "set ord = set (destinationSets (Tcs req))"
      "fst (flush w (buildTcClient (GetNsPath w pid)) []) = None"
      "\<not> wellFormed (filteredRules ord (Tcs req) ! m)"
      "\<forall>tc \<in> set (globalRules (Tcs req)). wellFormed tc"
      "\<forall>m'<m. wellFormed (filteredRules ord (Tcs req) ! m')"
      "\<forall>p. 0 < p \<and> p \<le> length (globalRules (Tcs req)) + 4 + m \<and> p < length tr
                     \<longrightarrow> answered w tr p"
    from filter_rejected [OF assms(1) this(3) assms(2) this(2,1,4,5,6,7)]
    show "length tr = length (globalRules (Tcs req)) + 5 + m
              \<and> res = Some (WithStack (rejection (filteredRules ord (Tcs req) ! m)))"
      by simp
  qed
  have d: ?D by (intro allI impI) (rule addTc_rejects)
  from a b c d show ?thesis by (intro conjI)
qed

theorem abort_on_failure_witness:
  "GetPidFromContainerID (failAt 3 ''RTNETLINK answers: File exists'') (ContainerId sampleRequest) = Inr 1
   \<and> 0 < (3::nat)
   \<and> 3 < length (snd (SetContainerTcRules (failAt 3 ''RTNETLINK answers: File exists'') [''A'', ''B''] sampleRequest))
   \<and> snd (SetContainerTcRules (failAt 3 ''RTNETLINK answers: File exists'') [''A'', ''B''] sampleRequest) ! 3
       = Exec ''/proc/1/ns/net'' [''qdisc'', ''add'', ''dev'', ''eth0'', ''parent'', ''2:'', ''handle'', ''3:'', ''prio'', ''bands'', ''5'',
          ''priomap'', ''1'', ''2'', ''2'', ''2'', ''1'', ''2'', ''0'', ''0'', ''1'', ''1'', ''1'', ''1'', ''1'', ''1'', ''1'', ''1'']
   \<and> CombinedOutput (failAt 3 ''RTNETLINK answers: File exists'')
         (take 3 (snd (SetContainerTcRules (failAt 3 ''RTNETLINK answers: File exists'') [''A'', ''B''] sampleRequest)))
         ''/proc/1/ns/net''
         [''qdisc'', ''add'', ''dev'', ''eth0'', ''parent'', ''2:'', ''handle'', ''3:'', ''prio'', ''bands'', ''5'',
          ''priomap'', ''1'', ''2'', ''2'', ''2'', ''1'', ''2'', ''0'', ''0'', ''1'', ''1'', ''1'', ''1'', ''1'', ''1'', ''1'', ''1'']
       = (''RTNETLINK answers: File exists'', Some (ExitError ''exit status 2''))
   \<and> length (snd (SetContainerTcRules (failAt 3 ''RTNETLINK answers: File exists'') [''A'', ''B''] sampleRequest)) = 4
   \<and> fst (SetContainerTcRules (failAt 3 ''RTNETLINK answers: File exists'') [''A'', ''B''] sampleRequest)
       = Some (WithStack (encodeOutputToError ''RTNETLINK answers: File exists'' (ExitError ''exit status 2'')))
   \<and> globalRules (Tcs sampleRequest4)
       = [netemTc 50000 [], (netemTc 100 [])\<lparr>Netem := None\<rparr>, netemTc 7 []]
   \<and> wellFormed (netemTc 50000 []) \<and> \<not> wellFormed ((netemTc 100 [])\<lparr>Netem := None\<rparr>)
   \<and> answered okWorld (snd (SetContainerTcRules okWorld [] sampleRequest4)) 1
   \<and> length (snd (SetContainerTcRules okWorld [] sampleRequest4)) = 2
   \<and> fst (SetContainerTcRules okWorld [] sampleRequest4)
       = Some (WithStack (Errorf ''netem is nil while type is NETEM''))
   \<and> filteredRules [''A''] (Tcs sampleRequest5) = [netemTc 100 ''A'', (tbfTc 1 1 ''A'')\<lparr>Tbf := None\<rparr>]
   \<and> wellFormed (netemTc 100 ''A'') \<and> \<not> wellFormed ((tbfTc 1 1 ''A'')\<lparr>Tbf := None\<rparr>)
   \<and> length (globalRules (Tcs sampleRequest5)) = 1
   \<and> length (snd (SetContainerTcRules okWorld [''A''] sampleRequest5)) = 7
   \<and> fst (SetContainerTcRules okWorld [''A''] sampleRequest5)
       = Some (WithStack (Errorf ''tbf is nil while type is BANDWIDTH''))"
proof -
  let ?w = "failAt 3 ''RTNETLINK answers: File exists''"
  let ?argv = "[''qdisc'', ''add'', ''dev'', ''eth0'', ''parent'', ''2:'', ''handle'', ''3:'', ''prio'', ''bands'', ''5'',
          ''priomap'', ''1'', ''2'', ''2'', ''2'', ''1'', ''2'', ''0'', ''0'', ''1'', ''1'', ''1'', ''1'', ''1'', ''1'', ''1'', ''1'']"
  have p: "0 < (3::nat)" by simp
  have len: "3 < length (snd (SetContainerTcRules ?w [''A'', ''B''] sampleRequest))"
    by (simp add: failing_run)
  have ev: "snd (SetContainerTcRules ?w [''A'', ''B''] sampleRequest) ! 3 = Exec ''/proc/1/ns/net'' ?argv"
    by (simp add: failing_run)
  have co: "CombinedOutput ?w (take 3 (snd (SetContainerTcRules ?w [''A'', ''B''] sampleRequest)))
      ''/proc/1/ns/net'' ?argv = (''RTNETLINK answers: File exists'', Some (ExitError ''exit status 2''))"
    by (simp add: failing_run) (simp add: failAt_def)
  have run: "SetContainerTcRules ?w [''A'', ''B''] sampleRequest
      = (fst (SetContainerTcRules ?w [''A'', ''B''] sampleRequest),
         snd (SetContainerTcRules ?w [''A'', ''B''] sampleRequest))" by simp
  from p len ev co have h1: "0 < (3::nat)
      \<and> 3 < length (snd (SetContainerTcRules ?w [''A'', ''B''] sampleRequest))
      \<and> snd (SetContainerTcRules ?w [''A'', ''B''] sampleRequest) ! 3 = Exec ''/proc/1/ns/net'' ?argv
      \<and> CombinedOutput ?w (take 3 (snd (SetContainerTcRules ?w [''A'', ''B''] sampleRequest)))
          ''/proc/1/ns/net'' ?argv = (''RTNETLINK answers: File exists'', Some (ExitError ''exit status 2''))"
    by (intro conjI)
  from abort_on_failure [OF failing_pid run, THEN conjunct1, rule_format, OF h1]
  have r1: "length (snd (SetContainerTcRules ?w [''A'', ''B''] sampleRequest)) = 4
      \<and> fst (SetContainerTcRules ?w [''A'', ''B''] sampleRequest)
          = Some (WithStack (encodeOutputToError ''RTNETLINK answers: File exists'' (ExitError ''exit status 2'')))"
    by simp
  obtain tr4 where tr4: "tr4 = snd (SetContainerTcRules okWorld [] sampleRequest4)" by simp
  obtain res4 where res4: "res4 = fst (SetContainerTcRules okWorld [] sampleRequest4)" by simp
  have run4: "SetContainerTcRules okWorld [] sampleRequest4 = (res4, tr4)"
    by (simp add: tr4 res4)
  have i4: "1 < length (globalRules (Tcs sampleRequest4))" by (simp add: sample4_global)
  have h4: "fst (flush okWorld (buildTcClient (GetNsPath okWorld 1)) []) = None
      \<and> \<not> wellFormed (globalRules (Tcs sampleRequest4) ! 1)
      \<and> (\<forall>j<1. wellFormed (globalRules (Tcs sampleRequest4) ! j))
      \<and> (\<forall>p. 0 < p \<and> p \<le> 1 \<and> p < length tr4 \<longrightarrow> answered okWorld tr4 p)"
    by (simp add: okWorld_flush okWorld_answered sample4_global wellFormed_samples)
  from abort_on_failure [OF okWorld_pid run4, THEN conjunct2, THEN conjunct1, rule_format, OF i4 h4]
  have r4: "length tr4 = 2 \<and> res4 = Some (WithStack (Errorf ''netem is nil while type is NETEM''))"
    by (simp add: sample4_global rejection_samples)
  obtain tr5 where tr5: "tr5 = snd (SetContainerTcRules okWorld [''A''] sampleRequest5)" by simp
  obtain res5 where res5: "res5 = fst (SetContainerTcRules okWorld [''A''] sampleRequest5)" by simp
  have run5: "SetContainerTcRules okWorld [''A''] sampleRequest5 = (res5, tr5)"
    by (simp add: tr5 res5)
  have m5: "1 < length (filteredRules [''A''] (Tcs sampleRequest5))" by (simp add: sample5_filtered)
  have h5: "set [''A''] = set (destinationSets (Tcs sampleRequest5))
      \<and> fst (flush okWorld (buildTcClient (GetNsPath okWorld 1)) []) = None
      \<and> \<not> wellFormed (filteredRules [''A''] (Tcs sampleRequest5) ! 1)
      \<and> (\<forall>tc \<in> set (globalRules (Tcs sampleRequest5)). wellFormed tc)
      \<and> (\<forall>m'<1. wellFormed (filteredRules [''A''] (Tcs sampleRequest5) ! m'))
      \<and> (\<forall>p. 0 < p \<and> p \<le> length (globalRules (Tcs sampleRequest5)) + 4 + 1 \<and> p < length tr5
             \<longrightarrow> answered okWorld tr5 p)"
    by (simp add: okWorld_flush okWorld_answered sample5_filtered sample5_global sample5_sets
        wellFormed_samples wellFormed_samples2)
  from abort_on_failure [OF okWorld_pid run5, THEN conjunct2, THEN conjunct2, THEN conjunct1,
      rule_format, OF m5 h5]
  have r5: "length tr5 = 7 \<and> res5 = Some (WithStack (Errorf ''tbf is nil while type is BANDWIDTH''))"
    by (simp add: sample5_filtered sample5_global rejection_samples)
  from r1 r4 r5 failing_pid p len ev co show ?thesis
    unfolding tr4 res4 tr5 res5
    by (simp add: okWorld_answered sample4_global sample5_filtered sample5_global
        wellFormed_samples wellFormed_samples2)
qed

text \<open>
  C5. Below \<open>g\<close> unfiltered rules, the filtered rule processed at position \<open>m\<close> (from 0,
  the groups in the order the loop visits them, each group in input order) is installed by
  the call number \<open>g + 5 + m\<close> of the run with the handle \<open>g + 5 + m\<close>: if the flush
  succeeds, the unfiltered rules and the filtered rules up to position \<open>m\<close> are well
  formed and the commands issued before are answered without error, the run has that
  call. The handles of the filtered rules are therefore greater than \<open>g + 4\<close> and grow by
  one along the processing order, and no two of them are printed alike. The first rule of
  the group processed at position \<open>j\<close> has the band \<open>(g+1):(j+4)\<close> as parent, any later
  rule of the group has the handle allocated just before it as parent. If every rule is
  well formed and every command is answered without error, the last call of the run hands
  the chains to the packet filter, and the target of the group at position \<open>j\<close> is
  \<open>CLASSIFY --set-class (g+1):(j+4)\<close>. Whatever the commands answer, the calls of a run
  at these positions are these.
\<close>

theorem filtered_group_layout:
  assumes "GetPidFromContainerID w (ContainerId req) = Inr pid"
    and "SetContainerTcRules w ord req = (res, tr)"
    and "distinct ord" and "set ord = set (destinationSets (Tcs req))"
    and "g = length (globalRules (Tcs req))"
  shows "(\<forall>j i m. j < length ord \<and> i < length (groupRules (Tcs req) (ord ! j))
            \<and> m = groupOffset (groupsIn ord (Tcs req)) j + i
            \<and> fst (flush w (buildTcClient (GetNsPath w pid)) []) = None
            \<and> (\<forall>tc \<in> set (globalRules (Tcs req)). wellFormed tc)
            \<and> (\<forall>m'\<le>m. wellFormed (filteredRules ord (Tcs req) ! m'))
            \<and> (\<forall>p. 0 < p \<and> p \<le> g + 4 + m \<and> p < length tr \<longrightarrow> answered w tr p) \<longrightarrow>
            g + 5 + m < length tr
            \<and> tr ! (g + 5 + m) =
              Exec (GetNsPath w pid)
                ([''qdisc'', ''add'', ''dev'', ''eth0'', ''parent'',
                  (if i = 0 then showInt (int g + 1) @ '':'' @ showInt (int j + 4)
                   else showInt (int g + 4 + int m) @ '':''),
                  ''handle'', showInt (int g + 5 + int m) @ '':'']
                 @ tcKindArgs (groupRules (Tcs req) (ord ! j) ! i)))
         \<and> (fst (flush w (buildTcClient (GetNsPath w pid)) []) = None
            \<and> (\<forall>tc \<in> set (Tcs req). wellFormed tc)
            \<and> (\<forall>p. 0 < p \<and> p \<le> g + 4 + length (filteredRules ord (Tcs req)) \<and> p < length tr
                   \<longrightarrow> answered w tr p) \<longrightarrow>
            length tr = g + 6 + length (filteredRules ord (Tcs req))
            \<and> tr ! (g + 5 + length (filteredRules ord (Tcs req))) =
                SetIptablesChains (GetNsPath w pid)
                  (map (\<lambda>j. \<lparr>Name = ''TC-TABLES-'' @ showInt (int j), Direction = Chain_OUTPUT,
                               Ipsets = [ord ! j],
                               Target = ''CLASSIFY --set-class '' @ showInt (int g + 1) @ '':''
                                        @ showInt (int j + 4)\<rparr>) [0..<length ord]))
         \<and> (\<forall>j i m. j < length ord \<and> i < length (groupRules (Tcs req) (ord ! j))
            \<and> m = groupOffset (groupsIn ord (Tcs req)) j + i \<longrightarrow>
            m < length (filteredRules ord (Tcs req))
            \<and> filteredRules ord (Tcs req) ! m = groupRules (Tcs req) (ord ! j) ! i)
         \<and> (\<forall>j i m. j < length ord \<and> i < length (groupRules (Tcs req) (ord ! j))
            \<and> m = groupOffset (groupsIn ord (Tcs req)) j + i \<and> g + 5 + m < length tr \<longrightarrow>
            tr ! (g + 5 + m) =
              Exec (GetNsPath w pid)
                ([''qdisc'', ''add'', ''dev'', ''eth0'', ''parent'',
                  (if i = 0 then showInt (int g + 1) @ '':'' @ showInt (int j + 4)
                   else showInt (int g + 4 + int m) @ '':''),
                  ''handle'', showInt (int g + 5 + int m) @ '':'']
                 @ tcKindArgs (groupRules (Tcs req) (ord ! j) ! i)))
         \<and> (\<forall>m m'. m \<noteq> m' \<longrightarrow> showInt (int g + 5 + int m) \<noteq> showInt (int g + 5 + int m'))
         \<and> (\<forall>ns chs j. SetIptablesChains ns chs \<in> set tr \<and> j < length ord \<longrightarrow>
               Ipsets (chs ! j) = [ord ! j]
               \<and> Target (chs ! j)
                   = ''CLASSIFY --set-class '' @ showInt (int g + 1) @ '':'' @ showInt (int j + 4))
         \<and> (res = None \<longrightarrow>
               length tr = g + 6 + groupOffset (groupsIn ord (Tcs req)) (length ord))"
  (is "?N1 \<and> ?N2 \<and> ?N3 \<and> ?O1 \<and> ?O2 \<and> ?O3 \<and> ?O4")
proof -
  have shape: "tr ! (g + 5 + m) =
              Exec (GetNsPath w pid)
                ([''qdisc'', ''add'', ''dev'', ''eth0'', ''parent'',
                  (if i = 0 then showInt (int g + 1) @ '':'' @ showInt (int j + 4)
                   else showInt (int g + 4 + int m) @ '':''),
                  ''handle'', showInt (int g + 5 + int m) @ '':'']
                 @ tcKindArgs (groupRules (Tcs req) (ord ! j) ! i))"
    if "j < length ord" "i < length (groupRules (Tcs req) (ord ! j))"
      "m = groupOffset (groupsIn ord (Tcs req)) j + i" "g + 5 + m < length tr" for j i m
    using trace_filter_step [OF assms(1,2,4,5) that] by (simp add: filterHandle_def)
  have o1: ?O1 using shape by blast
  have n3: ?N3 using filteredRules_nth by blast
  have n1: ?N1
  proof (intro allI impI, elim conjE)
    fix j i m
    assume j: "j < length ord" and i: "i < length (groupRules (Tcs req) (ord ! j))"
      and m: "m = groupOffset (groupsIn ord (Tcs req)) j + i"
      and fl: "fst (flush w (buildTcClient (GetNsPath w pid)) []) = None"
      and wf: "\<forall>tc \<in> set (globalRules (Tcs req)). wellFormed tc"
      and wfF: "\<forall>m'\<le>m. wellFormed (filteredRules ord (Tcs req) ! m')"
      and an: "\<forall>p. 0 < p \<and> p \<le> g + 4 + m \<and> p < length tr \<longrightarrow> answered w tr p"
    from filteredRules_nth [OF j i] m have m': "m < length (filteredRules ord (Tcs req))" by simp
    from an have an': "\<forall>p. 0 < p \<and> p \<le> length (globalRules (Tcs req)) + 4 + m \<and> p < length tr
               \<longrightarrow> answered w tr p" unfolding assms(5) .
    from filter_issued [OF assms(1) fl assms(2,4) m' wf wfF an'] assms(5)
    have len: "g + 5 + m < length tr" by simp
    from len shape [OF j i m len]
    show "g + 5 + m < length tr
            \<and> tr ! (g + 5 + m) =
              Exec (GetNsPath w pid)
                ([''qdisc'', ''add'', ''dev'', ''eth0'', ''parent'',
                  (if i = 0 then showInt (int g + 1) @ '':'' @ showInt (int j + 4)
                   else showInt (int g + 4 + int m) @ '':''),
                  ''handle'', showInt (int g + 5 + int m) @ '':'']
                 @ tcKindArgs (groupRules (Tcs req) (ord ! j) ! i))" by (rule conjI)
  qed
  have n2: ?N2
  proof (intro impI, elim conjE)
    assume fl: "fst (flush w (buildTcClient (GetNsPath w pid)) []) = None"
      and wf: "\<forall>tc \<in> set (Tcs req). wellFormed tc"
      and an: "\<forall>p. 0 < p \<and> p \<le> g + 4 + length (filteredRules ord (Tcs req)) \<and> p < length tr
                   \<longrightarrow> answered w tr p"
    from an have an': "\<forall>p. 0 < p
        \<and> p \<le> length (globalRules (Tcs req)) + 4 + length (filteredRules ord (Tcs req))
        \<and> p < length tr \<longrightarrow> answered w tr p" unfolding assms(5) .
    from chains_issued [OF assms(1) fl assms(2,4) wf an']
    show "length tr = g + 6 + length (filteredRules ord (Tcs req))
            \<and> tr ! (g + 5 + length (filteredRules ord (Tcs req))) =
                SetIptablesChains (GetNsPath w pid)
                  (map (\<lambda>j. \<lparr>Name = ''TC-TABLES-'' @ showInt (int j), Direction = Chain_OUTPUT,
                               Ipsets = [ord ! j],
                               Target = ''CLASSIFY --set-class '' @ showInt (int g + 1) @ '':''
                                        @ showInt (int j + 4)\<rparr>) [0..<length ord])"
      unfolding assms(5) by (simp add: tcChains_map tcChain_def)
  qed
  have o2: ?O2
  proof (intro allI impI)
    fix m m' :: nat assume "m \<noteq> m'"
    then have "int g + 5 + int m \<noteq> int g + 5 + int m'" by simp
    then show "showInt (int g + 5 + int m) \<noteq> showInt (int g + 5 + int m')"
      using showInt_inj by blast
  qed
  have o3: ?O3
  proof (intro allI impI)
    fix ns chs j
    assume a: "SetIptablesChains ns chs \<in> set tr \<and> j < length ord"
    then have "chs = tcChains (length (globalRules (Tcs req))) ord"
      using trace_chains [OF assms(1,2)] by blast
    with a assms(5) show "Ipsets (chs ! j) = [ord ! j]
               \<and> Target (chs ! j)
                   = ''CLASSIFY --set-class '' @ showInt (int g + 1) @ '':'' @ showInt (int j + 4)"
      by (simp add: tcChains_map tcChain_def)
  qed
  have o4: ?O4
  proof
    assume "res = None"
    with assms(2) have run: "SetContainerTcRules w ord req = (None, tr)" by simp
    from trace_applied [OF assms(1) run] assms(5)
    show "length tr = g + 6 + groupOffset (groupsIn ord (Tcs req)) (length ord)"
      by (simp add: groups_of_order [OF assms(4)] length_planSteps groupOffset_def groupsIn_def)
  qed
  from n1 n2 n3 o1 o2 o3 o4 show ?thesis by (intro conjI)
qed

theorem filtered_group_layout_witness:
  "GetPidFromContainerID okWorld (ContainerId sampleRequest2) = Inr 1
   \<and> distinct [''A'', ''B''] \<and> set [''A'', ''B''] = set (destinationSets (Tcs sampleRequest2))
   \<and> fst (flush okWorld (buildTcClient (GetNsPath okWorld 1)) []) = None
   \<and> length (globalRules (Tcs sampleRequest2)) = 1
   \<and> filteredRules [''A'', ''B''] (Tcs sampleRequest2)
       = [netemTc 100 ''A'', netemTc 300 ''A'', netemTc 200 ''B'']
   \<and> wellFormed (netemTc 50000 []) \<and> wellFormed (netemTc 100 ''A'')
   \<and> wellFormed (netemTc 300 ''A'') \<and> wellFormed (netemTc 200 ''B'')
   \<and> (1::nat) < length (groupRules (Tcs sampleRequest2) ([''A'', ''B''] ! 0))
   \<and> groupOffset (groupsIn [''A'', ''B''] (Tcs sampleRequest2)) 0 + 1 = 1
   \<and> groupOffset (groupsIn [''A'', ''B''] (Tcs sampleRequest2)) 1 + 0 = 2
   \<and> answered okWorld (snd (SetContainerTcRules okWorld [''A'', ''B''] sampleRequest2)) 7
   \<and> length (snd (SetContainerTcRules okWorld [''A'', ''B''] sampleRequest2)) = 10
   \<and> snd (SetContainerTcRules okWorld [''A'', ''B''] sampleRequest2) ! 7
       = Exec ''/proc/1/ns/net'' [''qdisc'', ''add'', ''dev'', ''eth0'', ''parent'', ''6:'', ''handle'', ''7:'',
           ''netem'', ''delay'', ''300'']
   \<and> snd (SetContainerTcRules okWorld [''A'', ''B''] sampleRequest2) ! 8
       = Exec ''/proc/1/ns/net'' [''qdisc'', ''add'', ''dev'', ''eth0'', ''parent'', ''2:5'', ''handle'', ''8:'',
           ''netem'', ''delay'', ''200'']
   \<and> snd (SetContainerTcRules okWorld [''A'', ''B''] sampleRequest2) ! 9
       = SetIptablesChains ''/proc/1/ns/net''
         [\<lparr>Name = ''TC-TABLES-0'', Direction = Chain_OUTPUT, Ipsets = [''A''], Target = ''CLASSIFY --set-class 2:4''\<rparr>,
          \<lparr>Name = ''TC-TABLES-1'', Direction = Chain_OUTPUT, Ipsets = [''B''], Target = ''CLASSIFY --set-class 2:5''\<rparr>]"
proof -
  obtain tr where tr: "tr = snd (SetContainerTcRules okWorld [''A'', ''B''] sampleRequest2)" by simp
  have run: "SetContainerTcRules okWorld [''A'', ''B''] sampleRequest2 = (None, tr)"
    by (simp add: tr sample2_run)
  have d: "distinct [''A'', ''B'']" by simp
  have s: "set [''A'', ''B''] = set (destinationSets (Tcs sampleRequest2))"
    by (simp add: sample2_sets)
  note T = filtered_group_layout [OF okWorld_pid run d s refl]
  have wfG: "\<forall>tc \<in> set (globalRules (Tcs sampleRequest2)). wellFormed tc"
    by (simp add: sample2_global wellFormed_samples)
  have wfF: "\<forall>m'\<le>m. wellFormed (filteredRules [''A'', ''B''] (Tcs sampleRequest2) ! m')"
    if "m < 3" for m
    using that by (auto simp: sample2_filtered wellFormed_samples nth_Cons split: nat.splits)
  have wfA: "\<forall>tc \<in> set (Tcs sampleRequest2). wellFormed tc"
    by (simp add: sampleRequest2_def wellFormed_samples)
  have an: "\<forall>p. 0 < p \<and> p \<le> n \<and> p < length tr \<longrightarrow> answered okWorld tr p" for n
    by (simp add: okWorld_answered)
  have a: "(0::nat) < length [''A'', ''B''] \<and> 1 < length (groupRules (Tcs sampleRequest2) ([''A'', ''B''] ! 0))
      \<and> 1 = groupOffset (groupsIn [''A'', ''B''] (Tcs sampleRequest2)) 0 + 1
      \<and> fst (flush okWorld (buildTcClient (GetNsPath okWorld 1)) []) = None
      \<and> (\<forall>tc \<in> set (globalRules (Tcs sampleRequest2)). wellFormed tc)
      \<and> (\<forall>m'\<le>1. wellFormed (filteredRules [''A'', ''B''] (Tcs sampleRequest2) ! m'))
      \<and> (\<forall>p. 0 < p \<and> p \<le> length (globalRules (Tcs sampleRequest2)) + 4 + 1 \<and> p < length tr
             \<longrightarrow> answered okWorld tr p)"
    using wfG wfF [of 1] an okWorld_flush
    by (simp add: sample2_groups sample2_offsets sample2_offsets [simplified])
  have b: "(1::nat) < length [''A'', ''B''] \<and> 0 < length (groupRules (Tcs sampleRequest2) ([''A'', ''B''] ! 1))
      \<and> 2 = groupOffset (groupsIn [''A'', ''B''] (Tcs sampleRequest2)) 1 + 0
      \<and> fst (flush okWorld (buildTcClient (GetNsPath okWorld 1)) []) = None
      \<and> (\<forall>tc \<in> set (globalRules (Tcs sampleRequest2)). wellFormed tc)
      \<and> (\<forall>m'\<le>2. wellFormed (filteredRules [''A'', ''B''] (Tcs sampleRequest2) ! m'))
      \<and> (\<forall>p. 0 < p \<and> p \<le> length (globalRules (Tcs sampleRequest2)) + 4 + 2 \<and> p < length tr
             \<longrightarrow> answered okWorld tr p)"
    using wfG wfF [of 2] an okWorld_flush
    by (simp add: sample2_groups sample2_offsets sample2_offsets [simplified])
  have c: "fst (flush okWorld (buildTcClient (GetNsPath okWorld 1)) []) = None
      \<and> (\<forall>tc \<in> set (Tcs sampleRequest2). wellFormed tc)
      \<and> (\<forall>p. 0 < p \<and> p \<le> length (globalRules (Tcs sampleRequest2)) + 4
                 + length (filteredRules [''A'', ''B''] (Tcs sampleRequest2)) \<and> p < length tr
             \<longrightarrow> answered okWorld tr p)"
    using wfA an okWorld_flush by simp
  from T [THEN conjunct1, rule_format, OF a]
  have r7: "tr ! 7 = Exec ''/proc/1/ns/net'' [''qdisc'', ''add'', ''dev'', ''eth0'', ''parent'', ''6:'', ''handle'', ''7:'',
           ''netem'', ''delay'', ''300'']"
    by (simp add: sample2_global sample2_groups sample_kind2 okWorld_ns show_eval)
  from T [THEN conjunct1, rule_format, OF b]
  have r8: "tr ! 8 = Exec ''/proc/1/ns/net'' [''qdisc'', ''add'', ''dev'', ''eth0'', ''parent'', ''2:5'', ''handle'', ''8:'',
           ''netem'', ''delay'', ''200'']"
    by (simp add: sample2_global sample2_groups sample_kind2 okWorld_ns show_eval)
  from T [THEN conjunct2, THEN conjunct1, rule_format, OF c]
  have r9: "length tr = 10 \<and> tr ! 9 = SetIptablesChains ''/proc/1/ns/net''
         [\<lparr>Name = ''TC-TABLES-0'', Direction = Chain_OUTPUT, Ipsets = [''A''], Target = ''CLASSIFY --set-class 2:4''\<rparr>,
          \<lparr>Name = ''TC-TABLES-1'', Direction = Chain_OUTPUT, Ipsets = [''B''], Target = ''CLASSIFY --set-class 2:5''\<rparr>]"
    by (simp add: sample2_global sample2_filtered okWorld_ns show_eval upt_rec [of 0] upt_rec [of 1] upt_rec [of 2])
  from r7 r8 r9 show ?thesis
    unfolding tr [symmetric]
    by (simp add: okWorld_pid okWorld_flush okWorld_answered sample2_sets sample2_global
        sample2_filtered sample2_groups sample2_offsets sample2_offsets [simplified]
        wellFormed_samples)
qed

text \<open>
  C1. The filtered groups are kept in a Go map (\<open>filterTc\<close>) and the loop over them is a
  \<open>range\<close> over that map, which visits the keys in an order the runtime chooses. The
  comment of \<open>SetContainerTcRules\<close> gives an example (two unfiltered rules, then one rule
  for the destination set \<open>A\<close> and one for \<open>B\<close>) and its outcome: the rule of \<open>A\<close> at the
  band \<open>3:4\<close> with the chain \<open>TC-TABLES-0\<close>, the rule of \<open>B\<close> at the band \<open>3:5\<close> with the
  chain \<open>TC-TABLES-1\<close>, the order of first occurrence. The code produces this outcome when
  the loop visits \<open>A\<close> before \<open>B\<close>. When it visits \<open>B\<close> before \<open>A\<close>, an order the map
  permits, the code installs the rule of \<open>B\<close> at \<open>3:4\<close> and the rule of \<open>A\<close> at \<open>3:5\<close>,
  and hands the packet filter \<open>TC-TABLES-0\<close> for \<open>B\<close> and \<open>TC-TABLES-1\<close> for \<open>A\<close>: the
  groups are not processed in the order of first occurrence.
\<close>

theorem first_seen_order_counterexample:
  "destinationSets (Tcs sampleRequest) = [''A'', ''B'']
   \<and> rangeOrder [''A'', ''B''] (snd (splitTcs (Tcs sampleRequest) [] []))
   \<and> last (snd (SetContainerTcRules okWorld [''A'', ''B''] sampleRequest))
       = SetIptablesChains ''/proc/1/ns/net''
           [\<lparr>Name = ''TC-TABLES-0'', Direction = Chain_OUTPUT, Ipsets = [''A''], Target = ''CLASSIFY --set-class 3:4''\<rparr>,
            \<lparr>Name = ''TC-TABLES-1'', Direction = Chain_OUTPUT, Ipsets = [''B''], Target = ''CLASSIFY --set-class 3:5''\<rparr>]
   \<and> rangeOrder [''B'', ''A''] (snd (splitTcs (Tcs sampleRequest) [] []))
   \<and> fst (SetContainerTcRules okWorld [''B'', ''A''] sampleRequest) = None
   \<and> snd (SetContainerTcRules okWorld [''B'', ''A''] sampleRequest) ! 7
       = Exec ''/proc/1/ns/net'' [''qdisc'', ''add'', ''dev'', ''eth0'', ''parent'', ''3:4'', ''handle'', ''7:'',
           ''netem'', ''delay'', ''100000'']
   \<and> snd (SetContainerTcRules okWorld [''B'', ''A''] sampleRequest) ! 8
       = Exec ''/proc/1/ns/net'' [''qdisc'', ''add'', ''dev'', ''eth0'', ''parent'', ''3:5'', ''handle'', ''8:'',
           ''netem'', ''delay'', ''50000'']
   \<and> last (snd (SetContainerTcRules okWorld [''B'', ''A''] sampleRequest))
       = SetIptablesChains ''/proc/1/ns/net''
           [\<lparr>Name = ''TC-TABLES-0'', Direction = Chain_OUTPUT, Ipsets = [''B''], Target = ''CLASSIFY --set-class 3:4''\<rparr>,
            \<lparr>Name = ''TC-TABLES-1'', Direction = Chain_OUTPUT, Ipsets = [''A''], Target = ''CLASSIFY --set-class 3:5''\<rparr>]
   \<and> concat (map Ipsets
         [\<lparr>Name = ''TC-TABLES-0'', Direction = Chain_OUTPUT, Ipsets = [''B''], Target = ''CLASSIFY --set-class 3:4''\<rparr>,
          \<lparr>Name = ''TC-TABLES-1'', Direction = Chain_OUTPUT, Ipsets = [''A''], Target = ''CLASSIFY --set-class 3:5''\<rparr>])
       \<noteq> destinationSets (Tcs sampleRequest)"
  by (simp add: sample_run sample_run_BA sample_sets rangeOrder_filterTc insert_commute)

end
